theory Spec2Isabelle
  imports
    Complex_Main
    "HOL-Library.Char_ord"
    "HOL-Library.List_Lexorder"
    "HOL-Library.Product_Lexorder"
    "HOL-Library.Monad_Syntax"
begin

section \<open>Strings and exceptions\<close>

text \<open>
  Python strings are modelled as \<^typ>\<open>string\<close>, read as sequences of code points below 256.
  Python compares strings lexicographically by code point, a proper prefix being smaller;
  that is the order of \<open>List_Lexorder\<close> over \<open>Char_ord\<close>.  Prices are Python floats; they are
  modelled as \<^typ>\<open>real\<close>, so \<open>nan\<close>, infinities and rounding are outside the model.
\<close>

text \<open>
  The exceptions that \<open>charts.py\<close> can let escape.  The three custom classes and the builtin
  ones it raises itself (\<open>ValueError\<close>, \<open>RuntimeError\<close>) come first; \<open>TypeError\<close>,
  \<open>AttributeError\<close>, \<open>IndexError\<close> and \<open>OverflowError\<close> are the builtin exceptions of
  operations applied to a value of the wrong shape or size.  \<open>NoDataAvailableError\<close> carries its message, because it is
  raised at two places that differ only in the message.
\<close>

datatype error =
    ValueError
  | RuntimeError
  | StockSymbolNotFoundError
  | APIRateLimitError
  | NoDataAvailableError string
  | TypeError
  | AttributeError
  | IndexError
  | OverflowError

definition code_point :: "char \<Rightarrow> nat" where
  "code_point c = of_char c"

definition is_digit :: "char \<Rightarrow> bool" where
  "is_digit c = (48 \<le> code_point c \<and> code_point c \<le> 57)"

text \<open>\<open>str.isspace\<close> and the regular expression class \<open>\\s\<close>, on code points below 256.\<close>

definition is_space :: "char \<Rightarrow> bool" where
  "is_space c = (let n = code_point c in
     (9 \<le> n \<and> n \<le> 13) \<or> (28 \<le> n \<and> n \<le> 32) \<or> n = 133 \<or> n = 160)"

definition digit_val :: "char \<Rightarrow> int" where
  "digit_val c = int (code_point c) - 48"

text \<open>\<open>str.lower\<close> on code points below 256: the ASCII capitals and the Latin-1 capitals
  (U+00C0 to U+00DE without the multiplication sign U+00D7) move up by 32.\<close>

definition lower_char :: "char \<Rightarrow> char" where
  "lower_char c = (let n = code_point c in
     if (65 \<le> n \<and> n \<le> 90) \<or> (192 \<le> n \<and> n \<le> 222 \<and> n \<noteq> 215)
     then char_of (n + 32) else c)"

definition lower :: "string \<Rightarrow> string" where
  "lower s = map lower_char s"

text \<open>\<open>str.upper\<close> on code points below 256: the ASCII small letters and the Latin-1 small
  letters (U+00E0 to U+00FE without the division sign U+00F7) move down by 32, and the sharp
  s (U+00DF) becomes \<open>SS\<close>.  The capitals of the micro sign (U+00B5) and of y with
  diaeresis (U+00FF) are U+039C and U+0178, above code point 255: these two letters have no
  capital among the strings modelled here and are left as they are, so for a string that
  holds one of them \<open>upper\<close> is not what Python returns.  No property below depends on the
  capital of a symbol.\<close>

definition upper_char :: "char \<Rightarrow> string" where
  "upper_char c = (let n = code_point c in
     if (97 \<le> n \<and> n \<le> 122) \<or> (224 \<le> n \<and> n \<le> 254 \<and> n \<noteq> 247) then [char_of (n - 32)]
     else if n = 223 then ''SS''
     else [c])"

definition upper :: "string \<Rightarrow> string" where
  "upper s = concat (map upper_char s)"

definition strip :: "string \<Rightarrow> string" where
  "strip s = rev (dropWhile is_space (rev (dropWhile is_space s)))"

text \<open>\<open>sub in s\<close> on strings: \<open>sub\<close> occurs in \<open>s\<close> as a contiguous run.\<close>

fun starts_with :: "string \<Rightarrow> string \<Rightarrow> bool" where
  "starts_with [] s = True"
| "starts_with (p # ps) [] = False"
| "starts_with (p # ps) (c # cs) = (p = c \<and> starts_with ps cs)"

fun contains :: "string \<Rightarrow> string \<Rightarrow> bool" where
  "contains sub [] = (sub = [])"
| "contains sub (c # cs) = (starts_with sub (c # cs) \<or> contains sub cs)"

text \<open>\<open>str(n)\<close> and the format specification \<open>02d\<close> for a non-negative integer.\<close>

definition digit_char :: "nat \<Rightarrow> char" where
  "digit_char n = char_of (48 + n)"

fun str_nat :: "nat \<Rightarrow> string" where
  "str_nat n = (if n < 10 then [digit_char n] else str_nat (n div 10) @ [digit_char (n mod 10)])"

declare str_nat.simps [simp del]

definition str_int :: "int \<Rightarrow> string" where
  "str_int i = (if i < 0 then CHR ''-'' # str_nat (nat (- i)) else str_nat (nat i))"

text \<open>\<open>format(i, "02d")\<close>: the sign counts towards the width, zeros go between sign and digits.\<close>

definition fmt_02d :: "int \<Rightarrow> string" where
  "fmt_02d i = (if 0 \<le> i \<and> i < 10 then CHR ''0'' # str_int i else str_int i)"

section \<open>Calendar dates: the part of \<open>datetime\<close> the program uses\<close>

text \<open>
  A naive \<open>datetime\<close> without microseconds (no format of the program has \<open>%f\<close>).  Python
  compares naive datetimes as the tuples of their fields.
\<close>

record datetime =
  year :: int
  month :: int
  day :: int
  hour :: int
  minute :: int
  second :: int

definition dt_key :: "datetime \<Rightarrow> int \<times> int \<times> int \<times> int \<times> int \<times> int" where
  "dt_key t = (year t, month t, day t, hour t, minute t, second t)"

definition dt_le :: "datetime \<Rightarrow> datetime \<Rightarrow> bool" where
  "dt_le a b = (dt_key a \<le> dt_key b)"

definition dt_less :: "datetime \<Rightarrow> datetime \<Rightarrow> bool" where
  "dt_less a b = (dt_key a < dt_key b)"

text \<open>The helpers of CPython's \<open>datetime\<close> module, with their names.\<close>

definition is_leap :: "int \<Rightarrow> bool" where
  "is_leap y = (y mod 4 = 0 \<and> (y mod 100 \<noteq> 0 \<or> y mod 400 = 0))"

definition days_before_year :: "int \<Rightarrow> int" where
  "days_before_year y = (let y' = y - 1 in y' * 365 + y' div 4 - y' div 100 + y' div 400)"

definition days_in_month :: "int \<Rightarrow> int \<Rightarrow> int" where
  "days_in_month y m =
     (if m = 2 \<and> is_leap y then 29
      else if m = 2 then 28
      else if m = 4 \<or> m = 6 \<or> m = 9 \<or> m = 11 then 30 else 31)"

definition days_before_month :: "int \<Rightarrow> int \<Rightarrow> int" where
  "days_before_month y m =
     (if m = 1 then 0 else if m = 2 then 31 else if m = 3 then 59 else if m = 4 then 90
      else if m = 5 then 120 else if m = 6 then 151 else if m = 7 then 181
      else if m = 8 then 212 else if m = 9 then 243 else if m = 10 then 273
      else if m = 11 then 304 else 334)
     + (if m > 2 \<and> is_leap y then 1 else 0)"

definition ymd2ord :: "int \<Rightarrow> int \<Rightarrow> int \<Rightarrow> int" where
  "ymd2ord y m d = days_before_year y + days_before_month y m + d"

text \<open>What the constructor \<open>datetime(year, month, day, hour, minute, second)\<close> accepts;
  anything else is a \<open>ValueError\<close>.\<close>

definition valid_datetime :: "datetime \<Rightarrow> bool" where
  "valid_datetime t =
     (1 \<le> year t \<and> year t \<le> 9999 \<and> 1 \<le> month t \<and> month t \<le> 12 \<and>
      1 \<le> day t \<and> day t \<le> days_in_month (year t) (month t) \<and>
      0 \<le> hour t \<and> hour t \<le> 23 \<and> 0 \<le> minute t \<and> minute t \<le> 59 \<and>
      0 \<le> second t \<and> second t \<le> 59)"

definition toordinal :: "datetime \<Rightarrow> int" where
  "toordinal t = ymd2ord (year t) (month t) (day t)"

definition isoweek1monday :: "int \<Rightarrow> int" where
  "isoweek1monday y =
     (let firstday = ymd2ord y 1 1;
          firstweekday = (firstday + 6) mod 7;
          week1monday = firstday - firstweekday
      in if firstweekday > 3 then week1monday + 7 else week1monday)"

text \<open>\<open>date.isocalendar\<close>: ISO year, ISO week, ISO weekday.  Python's \<open>divmod\<close> rounds
  towards minus infinity, as \<open>div\<close> and \<open>mod\<close> on \<^typ>\<open>int\<close> do.\<close>

definition isocalendar :: "datetime \<Rightarrow> int \<times> int \<times> int" where
  "isocalendar t =
     (let y = year t;
          week1monday = isoweek1monday y;
          today = ymd2ord y (month t) (day t);
          week = (today - week1monday) div 7;
          wday = (today - week1monday) mod 7
      in if week < 0 then
           (let y' = y - 1;
                week1monday' = isoweek1monday y'
            in (y', (today - week1monday') div 7 + 1, (today - week1monday') mod 7 + 1))
         else if week \<ge> 52 then
           (if today \<ge> isoweek1monday (y + 1) then (y + 1, 1, wday + 1)
            else (y, week + 1, wday + 1))
         else (y, week + 1, wday + 1))"

section \<open>\<open>datetime.strptime\<close> for the two formats of \<open>parse_date\<close>\<close>

text \<open>
  \<open>strptime\<close> turns the format into a regular expression: each directive becomes a group of
  alternatives, tried in order, each a fixed run of character classes; white space in the
  format becomes \<open>\\s+\<close>; every other character stands for itself.  The string must match
  from its start and nothing may remain after the match.  In both formats of the program a
  directive is followed by a character that is not a digit, by white space or by the end, so
  the first alternative that matches is the one the regular expression engine settles on,
  and the matcher below needs no backtracking.
\<close>

definition is_char :: "char \<Rightarrow> char \<Rightarrow> bool" where
  "is_char a c = (c = a)"

definition in_range :: "char \<Rightarrow> char \<Rightarrow> char \<Rightarrow> bool" where
  "in_range a b c = (a \<le> c \<and> c \<le> b)"

fun match_seq :: "(char \<Rightarrow> bool) list \<Rightarrow> string \<Rightarrow> (string \<times> string) option" where
  "match_seq [] s = Some ([], s)"
| "match_seq (p # ps) [] = None"
| "match_seq (p # ps) (c # cs) =
     (if p c then (case match_seq ps cs of None \<Rightarrow> None | Some (t, r) \<Rightarrow> Some (c # t, r))
      else None)"

fun match_alts :: "(char \<Rightarrow> bool) list list \<Rightarrow> string \<Rightarrow> (string \<times> string) option" where
  "match_alts [] s = None"
| "match_alts (a # as) s =
     (case match_seq a s of Some r \<Rightarrow> Some r | None \<Rightarrow> match_alts as s)"

text \<open>The groups of \<open>_strptime.TimeRE\<close> for \<open>%Y\<close>, \<open>%m\<close>, \<open>%d\<close>, \<open>%H\<close>, \<open>%M\<close>, \<open>%S\<close>.\<close>

definition re_Y :: "(char \<Rightarrow> bool) list list" where
  "re_Y = [[is_digit, is_digit, is_digit, is_digit]]"

definition re_m :: "(char \<Rightarrow> bool) list list" where
  "re_m = [[is_char CHR ''1'', in_range CHR ''0'' CHR ''2''],
           [is_char CHR ''0'', in_range CHR ''1'' CHR ''9''],
           [in_range CHR ''1'' CHR ''9'']]"

definition re_d :: "(char \<Rightarrow> bool) list list" where
  "re_d = [[is_char CHR ''3'', in_range CHR ''0'' CHR ''1''],
           [in_range CHR ''1'' CHR ''2'', is_digit],
           [is_char CHR ''0'', in_range CHR ''1'' CHR ''9''],
           [in_range CHR ''1'' CHR ''9''],
           [is_char CHR '' '', in_range CHR ''1'' CHR ''9'']]"

definition re_H :: "(char \<Rightarrow> bool) list list" where
  "re_H = [[is_char CHR ''2'', in_range CHR ''0'' CHR ''3''],
           [in_range CHR ''0'' CHR ''1'', is_digit],
           [is_digit]]"

definition re_M :: "(char \<Rightarrow> bool) list list" where
  "re_M = [[in_range CHR ''0'' CHR ''5'', is_digit], [is_digit]]"

definition re_S :: "(char \<Rightarrow> bool) list list" where
  "re_S = [[is_char CHR ''6'', in_range CHR ''0'' CHR ''1''],
           [in_range CHR ''0'' CHR ''5'', is_digit],
           [is_digit]]"

text \<open>\<open>int(text)\<close> on the text of a group: white space around the digits is dropped.\<close>

definition int_of_text :: "string \<Rightarrow> int" where
  "int_of_text t = foldl (\<lambda>a c. 10 * a + digit_val c) 0 (dropWhile is_space t)"

definition directive :: "(char \<Rightarrow> bool) list list \<Rightarrow> string \<Rightarrow> (int \<times> string) option" where
  "directive re s =
     (case match_alts re s of None \<Rightarrow> None | Some (t, r) \<Rightarrow> Some (int_of_text t, r))"

definition literal :: "char \<Rightarrow> string \<Rightarrow> string option" where
  "literal a s = (case s of [] \<Rightarrow> None | c # cs \<Rightarrow> if c = a then Some cs else None)"

definition spaces :: "string \<Rightarrow> string option" where
  "spaces s = (case s of [] \<Rightarrow> None
               | c # cs \<Rightarrow> if is_space c then Some (dropWhile is_space cs) else None)"

definition check_datetime :: "datetime \<Rightarrow> datetime option" where
  "check_datetime t = (if valid_datetime t then Some t else None)"

text \<open>\<open>datetime.strptime(s, "%Y-%m-%d")\<close>; \<open>None\<close> stands for \<open>ValueError\<close>.\<close>

definition strptime_ymd :: "string \<Rightarrow> datetime option" where
  "strptime_ymd s = do {
     (y, s1) \<leftarrow> directive re_Y s;
     s2 \<leftarrow> literal CHR ''-'' s1;
     (m, s3) \<leftarrow> directive re_m s2;
     s4 \<leftarrow> literal CHR ''-'' s3;
     (d, s5) \<leftarrow> directive re_d s4;
     if s5 = [] then
       check_datetime \<lparr>year = y, month = m, day = d, hour = 0, minute = 0, second = 0\<rparr>
     else None }"

text \<open>\<open>datetime.strptime(s, "%Y-%m-%d %H:%M:%S")\<close>.\<close>

definition strptime_ymd_hms :: "string \<Rightarrow> datetime option" where
  "strptime_ymd_hms s = do {
     (y, s1) \<leftarrow> directive re_Y s;
     s2 \<leftarrow> literal CHR ''-'' s1;
     (m, s3) \<leftarrow> directive re_m s2;
     s4 \<leftarrow> literal CHR ''-'' s3;
     (d, s5) \<leftarrow> directive re_d s4;
     s6 \<leftarrow> spaces s5;
     (h, s7) \<leftarrow> directive re_H s6;
     s8 \<leftarrow> literal CHR '':'' s7;
     (mi, s9) \<leftarrow> directive re_M s8;
     s10 \<leftarrow> literal CHR '':'' s9;
     (se, s11) \<leftarrow> directive re_S s10;
     if s11 = [] then
       check_datetime \<lparr>year = y, month = m, day = d, hour = h, minute = mi, second = se\<rparr>
     else None }"

text \<open>\<open>parse_date\<close>: the date format first, the date-time format when that one raises.\<close>

definition parse_date :: "string \<Rightarrow> error + datetime" where
  "parse_date date_text =
     (case strptime_ymd date_text of
        Some t \<Rightarrow> Inr t
      | None \<Rightarrow> (case strptime_ymd_hms date_text of Some t \<Rightarrow> Inr t | None \<Rightarrow> Inl ValueError))"

section \<open>Price records and the date filter\<close>

text \<open>A row of the program is a dictionary with the keys \<open>date\<close>, \<open>open\<close>, \<open>high\<close>, \<open>low\<close>
  and \<open>close\<close>; the price fields carry the names of the local variables of
  \<open>group_by_period\<close>, the plain names being taken in HOL.\<close>

record row =
  date :: string
  open_price :: real
  high_price :: real
  low_price :: real
  close_price :: real

definition newline :: string where
  "newline = [CHR 0x0A]"

definition no_data_in_range_message :: "string \<Rightarrow> string \<Rightarrow> string" where
  "no_data_in_range_message start_date end_date =
     ''No data available between '' @ start_date @ '' and '' @ end_date @ ''.'' @ newline @
     ''The stock may not have been trading during this period, or'' @ newline @
     ''the date range may be outside the available data range.'' @ newline @
     ''Try selecting a more recent date range.''"

text \<open>The loop of \<open>filter_by_date\<close>: the date of every row is parsed, in order, outside any
  \<open>try\<close>, so the first row whose date does not parse ends the call with \<open>ValueError\<close>.\<close>

fun filter_rows :: "datetime \<Rightarrow> datetime \<Rightarrow> row list \<Rightarrow> error + row list" where
  "filter_rows start end [] = Inr []"
| "filter_rows start end (r # rows) =
     (case parse_date (date r) of
        Inl e \<Rightarrow> Inl e
      | Inr date_obj \<Rightarrow>
          (case filter_rows start end rows of
             Inl e \<Rightarrow> Inl e
           | Inr filtered_rows \<Rightarrow>
               if dt_le start date_obj \<and> dt_le date_obj end
               then Inr (r # filtered_rows) else Inr filtered_rows))"

definition filter_by_date :: "row list \<Rightarrow> string \<Rightarrow> string \<Rightarrow> error + row list" where
  "filter_by_date rows start_date end_date =
     (case parse_date start_date of
        Inl e \<Rightarrow> Inl ValueError
      | Inr start \<Rightarrow>
     (case parse_date end_date of
        Inl e \<Rightarrow> Inl ValueError
      | Inr end \<Rightarrow>
          if dt_less end start then Inl ValueError
          else (case filter_rows start end rows of
                  Inl e \<Rightarrow> Inl e
                | Inr filtered_rows \<Rightarrow>
                    if filtered_rows = []
                    then Inl (NoDataAvailableError (no_data_in_range_message start_date end_date))
                    else Inr (sort_key date filtered_rows))))"

section \<open>Aggregation by period\<close>

text \<open>The label of a row's group; the date is parsed for every row before the period is
  looked at, so a date that does not parse raises \<open>ValueError\<close> whatever the period.\<close>

definition group_label :: "string \<Rightarrow> row \<Rightarrow> error + string" where
  "group_label period r =
     (case parse_date (date r) of
        Inl e \<Rightarrow> Inl e
      | Inr date_obj \<Rightarrow>
          if period = ''weekly'' then
            (case isocalendar date_obj of
               (y, week_num, _) \<Rightarrow> Inr (str_int y @ ''-W'' @ fmt_02d week_num))
          else if period = ''monthly'' then
            Inr (str_int (year date_obj) @ ''-'' @ fmt_02d (month date_obj))
          else Inr (date r))"

text \<open>\<open>grouped_data\<close> is a dictionary from label to list of rows.  A Python dictionary keeps
  its keys in the order of their first insertion, which is the order the second loop reads
  them in; it is an association list here.\<close>

fun append_to_group :: "string \<Rightarrow> row \<Rightarrow> (string \<times> row list) list \<Rightarrow> (string \<times> row list) list" where
  "append_to_group label r [] = [(label, [r])]"
| "append_to_group label r ((l, rs) # grouped_data) =
     (if l = label then (l, rs @ [r]) # grouped_data
      else (l, rs) # append_to_group label r grouped_data)"

fun group_rows :: "string \<Rightarrow> row list \<Rightarrow> (string \<times> row list) list \<Rightarrow> error + (string \<times> row list) list" where
  "group_rows period [] grouped_data = Inr grouped_data"
| "group_rows period (r # data_rows) grouped_data =
     (case group_label period r of
        Inl e \<Rightarrow> Inl e
      | Inr label \<Rightarrow> group_rows period data_rows (append_to_group label r grouped_data))"

text \<open>\<open>max(r["high"] for r in rows_in_group)\<close> and \<open>min\<close> alike, on a list with a head.\<close>

definition max_of :: "real list \<Rightarrow> real" where
  "max_of xs = foldl max (hd xs) (tl xs)"

definition min_of :: "real list \<Rightarrow> real" where
  "min_of xs = foldl min (hd xs) (tl xs)"

text \<open>One record per group.  \<open>list.sort\<close> is stable, as \<^const>\<open>sort_key\<close> is.  On an empty
  group \<open>rows_in_group[0]\<close> would raise \<open>IndexError\<close>; no group is ever empty.\<close>

definition combine_group :: "string \<times> row list \<Rightarrow> error + row" where
  "combine_group g =
     (case g of (label, rows_in_group) \<Rightarrow>
        (case sort_key date rows_in_group of
           [] \<Rightarrow> Inl IndexError
         | r # rs \<Rightarrow>
             Inr \<lparr>date = label,
                  open_price = open_price r,
                  high_price = max_of (map high_price (r # rs)),
                  low_price = min_of (map low_price (r # rs)),
                  close_price = close_price (last (r # rs))\<rparr>))"

fun combine_groups :: "(string \<times> row list) list \<Rightarrow> error + row list" where
  "combine_groups [] = Inr []"
| "combine_groups (g # gs) =
     (case combine_group g of
        Inl e \<Rightarrow> Inl e
      | Inr r \<Rightarrow> (case combine_groups gs of Inl e \<Rightarrow> Inl e | Inr grouped_rows \<Rightarrow> Inr (r # grouped_rows)))"

definition group_by_period :: "row list \<Rightarrow> string \<Rightarrow> error + row list" where
  "group_by_period data_rows period =
     (if period = ''intraday'' \<or> period = ''daily'' then Inr (sort_key date data_rows)
      else (case group_rows period data_rows [] of
              Inl e \<Rightarrow> Inl e
            | Inr grouped_data \<Rightarrow>
                (case combine_groups grouped_data of
                   Inl e \<Rightarrow> Inl e
                 | Inr grouped_rows \<Rightarrow> Inr (sort_key date grouped_rows))))"

section \<open>Assembling the chart series\<close>

text \<open>What the chart object of the drawing library receives: the list assigned to
  \<open>chart.x_labels\<close> and the calls of \<open>chart.add(name, values)\<close> in their order.  The title,
  the style and the drawing itself are left to the library.\<close>

record chart_series =
  x_labels :: "string list"
  series :: "(string \<times> real list) list"

text \<open>\<open>render_chart\<close> on a list of rows (the branch \<open>isinstance(grouped, list)\<close>): it builds
  the dictionary with \<open>x_labels\<close> and the four series, assigns its \<open>x_labels\<close> to the chart
  and adds every series under its \<open>label\<close>.\<close>

definition render_chart :: "row list \<Rightarrow> chart_series" where
  "render_chart grouped =
     (let labels = map date grouped;
          series_list = [(''Open'', map open_price grouped),
                         (''High'', map high_price grouped),
                         (''Low'', map low_price grouped),
                         (''Close'', map close_price grouped)]
      in \<lparr>x_labels = labels, series = series_list\<rparr>)"

section \<open>The provider's response\<close>

text \<open>What \<open>resp.json()\<close> can return.  A JSON object becomes a Python dictionary, which is
  an association list here, in the order of the keys; a Python dictionary has every key once.
  A JSON number without fraction and exponent becomes an \<open>int\<close>, any other a \<open>float\<close>.\<close>

datatype json =
    JNull
  | JBool bool
  | JInt int
  | JFloat real
  | JStr string
  | JArr "json list"
  | JObj "(string \<times> json) list"

text \<open>\<open>s in v\<close> for a string \<open>s\<close>: a substring test on a string, membership in a list, a key
  test on a dictionary, and \<open>TypeError\<close> on \<open>None\<close>, a boolean or a number.\<close>

fun py_in :: "string \<Rightarrow> json \<Rightarrow> error + bool" where
  "py_in s (JStr t) = Inr (contains s t)"
| "py_in s (JArr vs) = Inr (JStr s \<in> set vs)"
| "py_in s (JObj kvs) = Inr (s \<in> fst ` set kvs)"
| "py_in s v = Inl TypeError"

text \<open>\<open>v.lower()\<close>: only a string has the method.\<close>

fun py_lower :: "json \<Rightarrow> error + json" where
  "py_lower (JStr t) = Inr (JStr (lower t))"
| "py_lower v = Inl AttributeError"

text \<open>\<open>a in v or b in w\<close>, where \<open>w\<close> is only computed when the first test is false.\<close>

definition in_or_in :: "string \<Rightarrow> json \<Rightarrow> string \<Rightarrow> error + json \<Rightarrow> error + bool" where
  "in_or_in a v b w =
     (case py_in a v of
        Inl e \<Rightarrow> Inl e
      | Inr True \<Rightarrow> Inr True
      | Inr False \<Rightarrow> (case w of Inl e \<Rightarrow> Inl e | Inr w' \<Rightarrow> py_in b w'))"

definition extract_time_series_from_response :: "(string \<times> json) list \<Rightarrow> error + string \<times> json" where
  "extract_time_series_from_response data =
     (case find (\<lambda>(key, v). contains ''Time Series'' key) data of
        Some (key, v) \<Rightarrow> Inr (key, v)
      | None \<Rightarrow>
     (case map_of data ''Error Message'' of
        Some error_msg \<Rightarrow>
          (case in_or_in ''Invalid API call'' error_msg ''Invalid stock symbol'' (Inr error_msg) of
             Inl e \<Rightarrow> Inl e
           | Inr True \<Rightarrow> Inl StockSymbolNotFoundError
           | Inr False \<Rightarrow> Inl RuntimeError)
      | None \<Rightarrow>
     (case map_of data ''Note'' of
        Some note_msg \<Rightarrow>
          (case in_or_in ''API call frequency'' note_msg ''rate limit'' (py_lower note_msg) of
             Inl e \<Rightarrow> Inl e
           | Inr True \<Rightarrow> Inl APIRateLimitError
           | Inr False \<Rightarrow> Inl RuntimeError)
      | None \<Rightarrow> Inl RuntimeError)))"

definition alpha_function_for_period :: "string \<Rightarrow> string \<Rightarrow> string \<times> (string \<times> string) list" where
  "alpha_function_for_period period intraday_interval =
     (let period = lower period in
      if period = ''intraday'' then
        (''TIME_SERIES_INTRADAY'', [(''interval'', intraday_interval), (''adjusted'', ''true'')])
      else if period = ''daily'' then (''TIME_SERIES_DAILY'', [])
      else if period = ''weekly'' then (''TIME_SERIES_WEEKLY'', [])
      else if period = ''monthly'' then (''TIME_SERIES_MONTHLY'', [])
      else (''TIME_SERIES_DAILY'', []))"

section \<open>Fetching\<close>

text \<open>The outcome of \<open>requests.get\<close>, \<open>raise_for_status\<close> and \<open>resp.json()\<close>: one of the
  exceptions the program catches, or the decoded body.\<close>

datatype response =
    Timeout
  | ConnectionError
  | HTTPError
  | RequestException
  | InvalidJSON
  | Body json

definition truthy :: "json \<Rightarrow> bool" where
  "truthy v = (case v of
      JNull \<Rightarrow> False | JBool b \<Rightarrow> b | JInt i \<Rightarrow> i \<noteq> 0 | JFloat x \<Rightarrow> x \<noteq> 0
    | JStr t \<Rightarrow> t \<noteq> []
    | JArr vs \<Rightarrow> vs \<noteq> [] | JObj kvs \<Rightarrow> kvs \<noteq> [])"

text \<open>\<open>float(values[k])\<close> inside the \<open>try\<close> of the row loop.  \<open>KeyError\<close> for a missing key
  and \<open>ValueError\<close> for a string that is no number are caught and raised again as
  \<open>RuntimeError\<close>; \<open>TypeError\<close> and \<open>OverflowError\<close> are not caught.  \<open>float\<close> on a string
  is a parameter.  \<open>float\<close> on an \<open>int\<close> rounds to the nearest double and raises
  \<open>OverflowError\<close> when that is beyond the largest one, which is the case from
  \<open>2 ^ 1024 - 2 ^ 970\<close> on; below that bound the model returns the integer itself, the
  rounding being outside a model of floats as reals.\<close>

definition float_of_int :: "int \<Rightarrow> error + real" where
  "float_of_int i =
     (if \<bar>i\<bar> < 2 ^ 1024 - 2 ^ 970 then Inr (real_of_int i) else Inl OverflowError)"

definition float_field :: "(string \<Rightarrow> real option) \<Rightarrow> json \<Rightarrow> string \<Rightarrow> error + real" where
  "float_field pyfloat values k =
     (case values of
        JObj kvs \<Rightarrow>
          (case map_of kvs k of
             None \<Rightarrow> Inl RuntimeError
           | Some (JStr t) \<Rightarrow> (case pyfloat t of None \<Rightarrow> Inl RuntimeError | Some x \<Rightarrow> Inr x)
           | Some (JInt i) \<Rightarrow> float_of_int i
           | Some (JFloat x) \<Rightarrow> Inr x
           | Some (JBool b) \<Rightarrow> Inr (if b then 1 else 0)
           | Some _ \<Rightarrow> Inl TypeError)
      | _ \<Rightarrow> Inl TypeError)"

definition make_row :: "(string \<Rightarrow> real option) \<Rightarrow> string \<Rightarrow> json \<Rightarrow> error + row" where
  "make_row pyfloat date_str values =
     (case float_field pyfloat values ''1. open'' of Inl e \<Rightarrow> Inl e | Inr opn \<Rightarrow>
     (case float_field pyfloat values ''2. high'' of Inl e \<Rightarrow> Inl e | Inr hi \<Rightarrow>
     (case float_field pyfloat values ''3. low'' of Inl e \<Rightarrow> Inl e | Inr lo \<Rightarrow>
     (case float_field pyfloat values ''4. close'' of Inl e \<Rightarrow> Inl e | Inr cl \<Rightarrow>
        Inr \<lparr>date = date_str, open_price = opn, high_price = hi, low_price = lo, close_price = cl\<rparr>))))"

fun make_rows :: "(string \<Rightarrow> real option) \<Rightarrow> (string \<times> json) list \<Rightarrow> error + row list" where
  "make_rows pyfloat [] = Inr []"
| "make_rows pyfloat ((date_str, values) # items) =
     (case make_row pyfloat date_str values of
        Inl e \<Rightarrow> Inl e
      | Inr r \<Rightarrow> (case make_rows pyfloat items of Inl e \<Rightarrow> Inl e | Inr rows \<Rightarrow> Inr (r # rows)))"

definition no_data_for_symbol_message :: "string \<Rightarrow> string \<Rightarrow> string" where
  "no_data_for_symbol_message symbol period =
     ''No data available for symbol '' @ [CHR 0x27] @ symbol @ [CHR 0x27] @ '' with '' @ period @
     '' time series.'' @ newline @
     ''The stock may not have data for the selected time period.''"

text \<open>
  \<open>extract_time_series_from_response\<close> on a body that is not a JSON object; it always
  raises.  \<open>None\<close>, a boolean and a number cannot be iterated: \<open>TypeError\<close>.  A list is
  iterated over its elements: the test \<open>"Time Series" in key\<close> raises \<open>TypeError\<close> on an
  element that is \<open>None\<close>, a boolean or a number, and where it is true \<open>data[key]\<close> raises
  \<open>TypeError\<close>; after the loop, \<open>"Error Message" in data\<close> and the two tests that follow
  are membership tests, and where one is true the subscript \<open>data[...]\<close> raises
  \<open>TypeError\<close>.  A string is iterated over its characters, none of which contains
  \<open>Time Series\<close>; the three tests are substring tests, and the subscript raises \<open>TypeError\<close>
  again.  Where every test is false, \<open>data.keys()\<close> raises \<open>AttributeError\<close>.
\<close>

definition non_object_error :: "json \<Rightarrow> error" where
  "non_object_error data =
     (case data of
        JArr vs \<Rightarrow>
          if find (\<lambda>key. py_in ''Time Series'' key \<noteq> Inr False) vs \<noteq> None then TypeError
          else if JStr ''Error Message'' \<in> set vs then TypeError
          else if JStr ''Note'' \<in> set vs then TypeError
          else if JStr ''Information'' \<in> set vs then TypeError
          else AttributeError
      | JStr t \<Rightarrow>
          if contains ''Error Message'' t then TypeError
          else if contains ''Note'' t then TypeError
          else if contains ''Information'' t then TypeError
          else AttributeError
      | _ \<Rightarrow> TypeError)"

text \<open>The steps of \<open>fetch_stock_rows_from_alpha_vantage\<close> after the body has been decoded.
  A time series that is true but no dictionary fails at \<open>len\<close> with \<open>TypeError\<close> (a boolean,
  a number) or at \<open>items\<close> with \<open>AttributeError\<close> (a string, a list).\<close>

definition rows_of_body :: "(string \<Rightarrow> real option) \<Rightarrow> string \<Rightarrow> string \<Rightarrow> json \<Rightarrow> error + row list" where
  "rows_of_body pyfloat symbol period data =
     (case data of
        JObj kvs \<Rightarrow>
          (case extract_time_series_from_response kvs of
             Inl e \<Rightarrow> Inl e
           | Inr (_, time_series) \<Rightarrow>
               if \<not> truthy time_series
               then Inl (NoDataAvailableError (no_data_for_symbol_message symbol period))
               else (case time_series of
                       JObj items \<Rightarrow> make_rows pyfloat items
                     | JStr t \<Rightarrow> Inl AttributeError
                     | JArr vs \<Rightarrow> Inl AttributeError
                     | _ \<Rightarrow> Inl TypeError))
      | _ \<Rightarrow> Inl (non_object_error data))"

text \<open>
  \<open>fetch_stock_rows_from_alpha_vantage\<close>.  The surroundings are parameters: \<open>getenv\<close> is the
  value of \<open>os.getenv("ALPHA_VANTAGE_API_KEY")\<close>, \<open>requests_get\<close> maps the query parameters
  to the outcome of the request, \<open>pyfloat\<close> is \<open>float\<close> on strings.
\<close>

definition fetch_stock_rows_from_alpha_vantage ::
  "string option \<Rightarrow> ((string \<times> string) list \<Rightarrow> response) \<Rightarrow> (string \<Rightarrow> real option) \<Rightarrow>
   string \<Rightarrow> string \<Rightarrow> string option \<Rightarrow> string \<Rightarrow> string \<Rightarrow> error + row list" where
  "fetch_stock_rows_from_alpha_vantage getenv requests_get pyfloat
       symbol period api_key outputsize intraday_interval =
     (if symbol = [] \<or> strip symbol = [] then Inl ValueError
      else
        let symbol = upper (strip symbol);
            api_key = getenv
        in (case api_key of
              None \<Rightarrow> Inl ValueError
            | Some key \<Rightarrow>
                if key = [] then Inl ValueError
                else
                  (case alpha_function_for_period period intraday_interval of
                     (function, extra) \<Rightarrow>
                       let params = [(''function'', function), (''symbol'', symbol),
                                     (''outputsize'', outputsize), (''apikey'', key)] @ extra
                       in (case requests_get params of
                             Timeout \<Rightarrow> Inl RuntimeError
                           | ConnectionError \<Rightarrow> Inl RuntimeError
                           | HTTPError \<Rightarrow> Inl RuntimeError
                           | RequestException \<Rightarrow> Inl RuntimeError
                           | InvalidJSON \<Rightarrow> Inl RuntimeError
                           | Body data \<Rightarrow> rows_of_body pyfloat symbol period data))))"

section \<open>The pipeline\<close>

text \<open>The two entry points, up to what they hand to the chart object.  Both call the fetch
  with its default \<open>outputsize\<close>, filter, and group.  \<open>generate_chart_from_api\<close> passes the
  grouped rows to \<open>render_chart\<close>; \<open>generate_chart_for_web\<close> assigns \<open>chart.x_labels\<close> and
  calls \<open>chart.add\<close> four times itself.\<close>

definition generate_chart_from_api ::
  "string option \<Rightarrow> ((string \<times> string) list \<Rightarrow> response) \<Rightarrow> (string \<Rightarrow> real option) \<Rightarrow>
   string \<Rightarrow> string \<Rightarrow> string \<Rightarrow> string \<Rightarrow> string option \<Rightarrow> string \<Rightarrow> error + chart_series" where
  "generate_chart_from_api getenv requests_get pyfloat
       symbol period start_date end_date api_key intraday_interval =
     (case fetch_stock_rows_from_alpha_vantage getenv requests_get pyfloat
             symbol period api_key ''full'' intraday_interval of
        Inl e \<Rightarrow> Inl e
      | Inr all_rows \<Rightarrow>
     (case filter_by_date all_rows start_date end_date of
        Inl e \<Rightarrow> Inl e
      | Inr filtered \<Rightarrow>
     (case group_by_period filtered period of
        Inl e \<Rightarrow> Inl e
      | Inr grouped \<Rightarrow> Inr (render_chart grouped))))"

definition generate_chart_for_web ::
  "string option \<Rightarrow> ((string \<times> string) list \<Rightarrow> response) \<Rightarrow> (string \<Rightarrow> real option) \<Rightarrow>
   string \<Rightarrow> string \<Rightarrow> string \<Rightarrow> string \<Rightarrow> string option \<Rightarrow> string \<Rightarrow> error + chart_series" where
  "generate_chart_for_web getenv requests_get pyfloat
       symbol period start_date end_date api_key intraday_interval =
     (case fetch_stock_rows_from_alpha_vantage getenv requests_get pyfloat
             symbol period api_key ''full'' intraday_interval of
        Inl e \<Rightarrow> Inl e
      | Inr all_rows \<Rightarrow>
     (case filter_by_date all_rows start_date end_date of
        Inl e \<Rightarrow> Inl e
      | Inr filtered \<Rightarrow>
     (case group_by_period filtered period of
        Inl e \<Rightarrow> Inl e
      | Inr grouped \<Rightarrow>
          Inr \<lparr>x_labels = map date grouped,
               series = [(''Open'', map open_price grouped),
                         (''High'', map high_price grouped),
                         (''Low'', map low_price grouped),
                         (''Close'', map close_price grouped)]\<rparr>)))"

section \<open>Notions used to state the properties\<close>

text \<open>A date string that \<open>parse_date\<close> accepts, the \<open>datetime\<close> of a row, and the test of
  the filter loop on it.\<close>

definition parses :: "string \<Rightarrow> bool" where
  "parses s = (\<not> isl (parse_date s))"

definition date_obj_of :: "row \<Rightarrow> datetime" where
  "date_obj_of r = projr (parse_date (date r))"

definition in_window :: "datetime \<Rightarrow> datetime \<Rightarrow> row \<Rightarrow> bool" where
  "in_window start end r = (dt_le start (date_obj_of r) \<and> dt_le (date_obj_of r) end)"

text \<open>The members of a bucket: the rows, in their order, whose label is the given one.\<close>

definition bucket :: "string \<Rightarrow> row list \<Rightarrow> string \<Rightarrow> row list" where
  "bucket period rows label = filter (\<lambda>r. group_label period r = Inr label) rows"

text \<open>The combination rule in the words of the specification: with the members sorted
  ascending by their original date, the open of the earliest, the close of the latest, the
  maximum of the highs and the minimum of the lows.\<close>

definition ohlc_rollup :: "string \<Rightarrow> row list \<Rightarrow> row" where
  "ohlc_rollup label members =
     (let sorted_members = sort_key date members
      in \<lparr>date = label,
          open_price = open_price (hd sorted_members),
          high_price = Max (high_price ` set members),
          low_price = Min (low_price ` set members),
          close_price = close_price (last sorted_members)\<rparr>)"

text \<open>The invariant of a price record: the high is at least the open, the close and the
  low; the low is at most the open, the close and the high.\<close>

definition ohlc_ok :: "row \<Rightarrow> bool" where
  "ohlc_ok r = (high_price r \<ge> max (open_price r) (max (close_price r) (low_price r))
              \<and> low_price r \<le> min (open_price r) (min (close_price r) (high_price r)))"

text \<open>
  The ISO 8601 week in the words of the specification.  Weeks run from Monday to Sunday; a
  week belongs to the year that holds its Thursday, so week 1 is the week with the first
  Thursday of the year, and the week number counts the Thursdays of that year up to the one
  of the week.  Day 1 of the proleptic Gregorian calendar is a Monday.
\<close>

definition iso_thursday :: "datetime \<Rightarrow> int" where
  "iso_thursday t = (let n = toordinal t in n - (n + 6) mod 7 + 3)"

definition iso8601_year :: "datetime \<Rightarrow> int" where
  "iso8601_year t =
     (let y = year t
      in if iso_thursday t < ymd2ord y 1 1 then y - 1
         else if iso_thursday t \<ge> ymd2ord (y + 1) 1 1 then y + 1
         else y)"

definition iso8601_week :: "datetime \<Rightarrow> int" where
  "iso8601_week t = (iso_thursday t - ymd2ord (iso8601_year t) 1 1) div 7 + 1"

text \<open>
  The format of the provider's dates: \<open>YYYY-MM-DD\<close>, followed by \<open>HH:MM:SS\<close> after one
  space for intraday records, every field padded with zeros to its width.  A string is
  zero-padded when it is its own date, as parsed by \<open>parse_date\<close>, written in this format.
\<close>

primrec pad_digits :: "nat \<Rightarrow> nat \<Rightarrow> string" where
  "pad_digits 0 n = []"
| "pad_digits (Suc k) n = pad_digits k (n div 10) @ [digit_char (n mod 10)]"

definition isoformat_date :: "datetime \<Rightarrow> string" where
  "isoformat_date t =
     pad_digits 4 (nat (year t)) @ ''-'' @ pad_digits 2 (nat (month t)) @ ''-''
     @ pad_digits 2 (nat (day t))"

definition isoformat_time :: "datetime \<Rightarrow> string" where
  "isoformat_time t =
     pad_digits 2 (nat (hour t)) @ '':'' @ pad_digits 2 (nat (minute t)) @ '':''
     @ pad_digits 2 (nat (second t))"

definition zero_padded :: "string \<Rightarrow> bool" where
  "zero_padded s =
     (case parse_date s of
        Inl e \<Rightarrow> False
      | Inr t \<Rightarrow>
          (s = isoformat_date t \<and> hour t = 0 \<and> minute t = 0 \<and> second t = 0)
          \<or> s = isoformat_date t @ '' '' @ isoformat_time t)"

section \<open>Properties\<close>

subsection \<open>Substring test\<close>

lemma starts_with_iff: "starts_with p s \<longleftrightarrow> (\<exists>q. s = p @ q)"
  by (induction p s rule: starts_with.induct) auto

lemma contains_iff: "contains sub s \<longleftrightarrow> (\<exists>p q. s = p @ sub @ q)"
proof (induction s)
  case Nil
  then show ?case by auto
next
  case (Cons c cs)
  show ?case
  proof
    assume "contains sub (c # cs)"
    then consider "starts_with sub (c # cs)" | "contains sub cs" by auto
    then show "\<exists>p q. c # cs = p @ sub @ q"
    proof cases
      case 1
      then obtain q where "c # cs = sub @ q" by (auto simp: starts_with_iff)
      then have "c # cs = [] @ sub @ q" by simp
      then show ?thesis by blast
    next
      case 2
      then obtain p q where "cs = p @ sub @ q" using Cons.IH by blast
      then have "c # cs = (c # p) @ sub @ q" by simp
      then show ?thesis by blast
    qed
  next
    assume "\<exists>p q. c # cs = p @ sub @ q"
    then obtain p q where pq: "c # cs = p @ sub @ q" by blast
    show "contains sub (c # cs)"
    proof (cases p)
      case Nil
      with pq have "starts_with sub (c # cs)" by (auto simp: starts_with_iff)
      then show ?thesis by simp
    next
      case (Cons a p')
      with pq have "cs = p' @ sub @ q" by simp
      then have "contains sub cs" using Cons.IH by blast
      then show ?thesis by simp
    qed
  qed
qed

subsection \<open>Failure classification of the provider's response\<close>

lemma find_no_time_series:
  assumes "\<And>key. key \<in> fst ` set data \<Longrightarrow> \<not> contains ''Time Series'' key"
  shows "find (\<lambda>(key, v). contains ''Time Series'' key) data = None"
  using assms by (force simp: find_None_iff)

text \<open>
  Claim C6.  When no key of the response contains \<open>Time Series\<close> and the response has an
  \<open>Error Message\<close> whose text contains \<open>Invalid API call\<close> or \<open>Invalid stock symbol\<close>,
  the extraction raises \<open>StockSymbolNotFoundError\<close>, and so do the fetch stage and the whole
  pipeline once the symbol is not blank, the credential is set and the request returns that
  response.
\<close>

theorem invalid_symbol_raises_symbol_not_found:
  assumes no_series: "\<And>key. key \<in> fst ` set data \<Longrightarrow> \<not> contains ''Time Series'' key"
    and msg: "map_of data ''Error Message'' = Some (JStr error_msg)"
    and phrase: "contains ''Invalid API call'' error_msg \<or> contains ''Invalid stock symbol'' error_msg"
    and symbol: "strip symbol \<noteq> []"
    and key: "getenv = Some k" "k \<noteq> []"
    and body: "\<And>params. requests_get params = Body (JObj data)"
  shows "extract_time_series_from_response data = Inl StockSymbolNotFoundError
       \<and> fetch_stock_rows_from_alpha_vantage getenv requests_get pyfloat
            symbol period api_key outputsize intraday_interval = Inl StockSymbolNotFoundError
       \<and> generate_chart_for_web getenv requests_get pyfloat
            symbol period start_date end_date api_key intraday_interval = Inl StockSymbolNotFoundError"
proof -
  have ex: "extract_time_series_from_response data = Inl StockSymbolNotFoundError"
    using phrase
    by (auto simp: extract_time_series_from_response_def find_no_time_series [OF no_series] msg
        in_or_in_def split: bool.splits)
  have sym: "symbol \<noteq> []" using symbol by (auto simp: strip_def)
  have fetch: "fetch_stock_rows_from_alpha_vantage getenv requests_get pyfloat
            symbol period api_key os ii = Inl StockSymbolNotFoundError" for os ii
    using symbol sym key
    by (simp add: fetch_stock_rows_from_alpha_vantage_def Let_def body rows_of_body_def ex
        split: prod.splits)
  show ?thesis
    using ex fetch by (simp add: generate_chart_for_web_def)
qed

theorem invalid_symbol_raises_symbol_not_found_witness:
  "generate_chart_for_web (Some ''demo'')
     (\<lambda>params. Body (JObj [(''Error Message'', JStr ''Invalid API call... Invalid stock symbol'')]))
     (\<lambda>t. None) ''IBM'' ''daily'' ''2024-01-01'' ''2024-01-31'' None ''60min''
   = Inl StockSymbolNotFoundError"
proof -
  let ?data = "[(''Error Message'', JStr ''Invalid API call... Invalid stock symbol'')]"
  have h1: "\<And>key. key \<in> fst ` set ?data \<Longrightarrow> \<not> contains ''Time Series'' key" by simp
  have h2: "map_of ?data ''Error Message'' = Some (JStr ''Invalid API call... Invalid stock symbol'')"
    by simp
  have h3: "contains ''Invalid API call'' ''Invalid API call... Invalid stock symbol''
          \<or> contains ''Invalid stock symbol'' ''Invalid API call... Invalid stock symbol''" by simp
  have h4: "strip ''IBM'' \<noteq> []" by (simp add: strip_def is_space_def code_point_def)
  show ?thesis
    using invalid_symbol_raises_symbol_not_found [OF h1 h2 h3 h4, of "Some ''demo''" "''demo''"
        "\<lambda>params. Body (JObj ?data)"]
    by simp
qed

subsection \<open>Series assembly\<close>

lemma render_chart_series:
  "render_chart grouped =
     \<lparr>x_labels = map date grouped,
      series = [(''Open'', map open_price grouped), (''High'', map high_price grouped),
                (''Low'', map low_price grouped), (''Close'', map close_price grouped)]\<rparr>"
  by (simp add: render_chart_def Let_def)

text \<open>
  Claim C8.  Whatever the aggregated records, \<open>render_chart\<close> hands the chart their labels
  in their order and exactly the four series \<open>Open\<close>, \<open>High\<close>, \<open>Low\<close>, \<open>Close\<close>, each with
  the field of that name of every record in the same order, so that every series is as long
  as the labels and as the records.  Whenever one of the two entry points returns a chart,
  the fetch, the filter and the aggregation have returned, and the chart holds the labels
  and the four series of the aggregated records, in the order the aggregation produced.
\<close>

theorem series_follow_aggregated_records:
  "x_labels (render_chart grouped) = map date grouped
   \<and> series (render_chart grouped) =
       [(''Open'', map open_price grouped), (''High'', map high_price grouped),
        (''Low'', map low_price grouped), (''Close'', map close_price grouped)]
   \<and> length (x_labels (render_chart grouped)) = length grouped
   \<and> map (length \<circ> snd) (series (render_chart grouped)) =
       [length grouped, length grouped, length grouped, length grouped]
   \<and> (generate_chart_for_web getenv requests_get pyfloat
         symbol period start_date end_date api_key intraday_interval = Inr chart
       \<or> generate_chart_from_api getenv requests_get pyfloat
         symbol period start_date end_date api_key intraday_interval = Inr chart \<longrightarrow>
       (\<exists>all_rows filtered aggregated.
          fetch_stock_rows_from_alpha_vantage getenv requests_get pyfloat
            symbol period api_key ''full'' intraday_interval = Inr all_rows
        \<and> filter_by_date all_rows start_date end_date = Inr filtered
        \<and> group_by_period filtered period = Inr aggregated
        \<and> x_labels chart = map date aggregated
        \<and> series chart =
            [(''Open'', map open_price aggregated), (''High'', map high_price aggregated),
             (''Low'', map low_price aggregated), (''Close'', map close_price aggregated)]
        \<and> length (x_labels chart) = length aggregated
        \<and> map (length \<circ> snd) (series chart) =
            [length aggregated, length aggregated, length aggregated, length aggregated]))"
proof -
  have web: "\<exists>all_rows filtered aggregated.
          fetch_stock_rows_from_alpha_vantage getenv requests_get pyfloat
            symbol period api_key ''full'' intraday_interval = Inr all_rows
        \<and> filter_by_date all_rows start_date end_date = Inr filtered
        \<and> group_by_period filtered period = Inr aggregated
        \<and> chart = render_chart aggregated"
    if "generate_chart_for_web getenv requests_get pyfloat
         symbol period start_date end_date api_key intraday_interval = Inr chart
       \<or> generate_chart_from_api getenv requests_get pyfloat
         symbol period start_date end_date api_key intraday_interval = Inr chart"
    using that
    by (auto simp: generate_chart_for_web_def generate_chart_from_api_def render_chart_series
        split: sum.splits)
  show ?thesis
    using web by (auto simp: render_chart_series)
qed

theorem series_follow_aggregated_records_witness:
  "generate_chart_for_web (Some ''demo'')
     (\<lambda>params. Body (JObj
        [(''Meta Data'', JObj []),
         (''Time Series (Daily)'', JObj
            [(''2024-01-05'', JObj [(''1. open'', JStr ''12.5''), (''2. high'', JFloat 15),
                                    (''3. low'', JFloat 11), (''4. close'', JFloat 14)]),
             (''2024-01-04'', JObj [(''1. open'', JFloat 10), (''2. high'', JFloat 13),
                                    (''3. low'', JFloat 9), (''4. close'', JFloat 12)])])]))
     (\<lambda>t. if t = ''12.5'' then Some (25 / 2) else None)
     ''ibm'' ''daily'' ''2024-01-01'' ''2024-01-31'' None ''60min''
   = Inr \<lparr>x_labels = [''2024-01-04'', ''2024-01-05''],
          series = [(''Open'', [10, 25 / 2]), (''High'', [13, 15]),
                    (''Low'', [9, 11]), (''Close'', [12, 14])]\<rparr>
   \<and> (\<exists>all_rows filtered aggregated.
          fetch_stock_rows_from_alpha_vantage (Some ''demo'')
            (\<lambda>params. Body (JObj
               [(''Meta Data'', JObj []),
                (''Time Series (Daily)'', JObj
                   [(''2024-01-05'', JObj [(''1. open'', JStr ''12.5''), (''2. high'', JFloat 15),
                                           (''3. low'', JFloat 11), (''4. close'', JFloat 14)]),
                    (''2024-01-04'', JObj [(''1. open'', JFloat 10), (''2. high'', JFloat 13),
                                           (''3. low'', JFloat 9), (''4. close'', JFloat 12)])])]))
            (\<lambda>t. if t = ''12.5'' then Some (25 / 2) else None)
            ''ibm'' ''daily'' None ''full'' ''60min'' = Inr all_rows
        \<and> filter_by_date all_rows ''2024-01-01'' ''2024-01-31'' = Inr filtered
        \<and> group_by_period filtered ''daily'' = Inr aggregated
        \<and> map date aggregated = [''2024-01-04'', ''2024-01-05'']
        \<and> map open_price aggregated = [10, 25 / 2]
        \<and> map high_price aggregated = [13, 15]
        \<and> map low_price aggregated = [9, 11]
        \<and> map close_price aggregated = [12, 14]
        \<and> length aggregated = 2)"
proof -
  let ?get = "\<lambda>params :: (string \<times> string) list. Body (JObj
        [(''Meta Data'', JObj []),
         (''Time Series (Daily)'', JObj
            [(''2024-01-05'', JObj [(''1. open'', JStr ''12.5''), (''2. high'', JFloat 15),
                                    (''3. low'', JFloat 11), (''4. close'', JFloat 14)]),
             (''2024-01-04'', JObj [(''1. open'', JFloat 10), (''2. high'', JFloat 13),
                                    (''3. low'', JFloat 9), (''4. close'', JFloat 12)])])])"
  let ?float = "\<lambda>t. if t = ''12.5'' then Some (25 / 2 :: real) else None"
  let ?chart = "\<lparr>x_labels = [''2024-01-04'', ''2024-01-05''],
          series = [(''Open'', [10, 25 / 2 :: real]), (''High'', [13, 15]),
                    (''Low'', [9, 11]), (''Close'', [12, 14])]\<rparr>"
  have run: "generate_chart_for_web (Some ''demo'') ?get ?float
     ''ibm'' ''daily'' ''2024-01-01'' ''2024-01-31'' None ''60min'' = Inr ?chart"
    by code_simp
  have labels: "x_labels ?chart = [''2024-01-04'', ''2024-01-05'']"
    by (simp only: chart_series.simps)
  have four: "series ?chart = [(''Open'', [10, 25 / 2 :: real]), (''High'', [13, 15]),
                    (''Low'', [9, 11]), (''Close'', [12, 14])]"
    by (simp only: chart_series.simps)
  have "\<exists>all_rows filtered aggregated.
          fetch_stock_rows_from_alpha_vantage (Some ''demo'') ?get ?float
            ''ibm'' ''daily'' None ''full'' ''60min'' = Inr all_rows
        \<and> filter_by_date all_rows ''2024-01-01'' ''2024-01-31'' = Inr filtered
        \<and> group_by_period filtered ''daily'' = Inr aggregated
        \<and> x_labels ?chart = map date aggregated
        \<and> series ?chart =
            [(''Open'', map open_price aggregated), (''High'', map high_price aggregated),
             (''Low'', map low_price aggregated), (''Close'', map close_price aggregated)]
        \<and> length (x_labels ?chart) = length aggregated
        \<and> map (length \<circ> snd) (series ?chart) =
            [length aggregated, length aggregated, length aggregated, length aggregated]"
    using series_follow_aggregated_records [where grouped = "[]", THEN conjunct2,
        THEN conjunct2, THEN conjunct2, THEN conjunct2, rule_format, OF disjI1, OF run]
    by (elim exE conjE) (intro exI conjI; assumption)
  then obtain all_rows filtered aggregated where
    f: "fetch_stock_rows_from_alpha_vantage (Some ''demo'') ?get ?float
            ''ibm'' ''daily'' None ''full'' ''60min'' = Inr all_rows"
    and g: "filter_by_date all_rows ''2024-01-01'' ''2024-01-31'' = Inr filtered"
    and h: "group_by_period filtered ''daily'' = Inr aggregated"
    and a: "x_labels ?chart = map date aggregated"
    and b: "series ?chart =
            [(''Open'', map open_price aggregated), (''High'', map high_price aggregated),
             (''Low'', map low_price aggregated), (''Close'', map close_price aggregated)]"
    and c: "length (x_labels ?chart) = length aggregated"
    by (elim exE conjE)
  from a labels have a': "map date aggregated = [''2024-01-04'', ''2024-01-05'']"
    by (rule trans [OF sym])
  from b four have b': "[(''Open'', map open_price aggregated), (''High'', map high_price aggregated),
             (''Low'', map low_price aggregated), (''Close'', map close_price aggregated)]
       = [(''Open'', [10, 25 / 2 :: real]), (''High'', [13, 15]),
                    (''Low'', [9, 11]), (''Close'', [12, 14])]"
    by (rule trans [OF sym])
  from b' have b1: "map open_price aggregated = [10, 25 / 2]"
    and b2: "map high_price aggregated = [13, 15]"
    and b3: "map low_price aggregated = [9, 11]"
    and b4: "map close_price aggregated = [12, 14]"
    by (simp_all only: list.inject prod.inject)
  from c labels have c': "length aggregated = 2"
    by simp
  from f g h a' b1 b2 b3 b4 c' have "fetch_stock_rows_from_alpha_vantage (Some ''demo'') ?get ?float
            ''ibm'' ''daily'' None ''full'' ''60min'' = Inr all_rows
        \<and> filter_by_date all_rows ''2024-01-01'' ''2024-01-31'' = Inr filtered
        \<and> group_by_period filtered ''daily'' = Inr aggregated
        \<and> map date aggregated = [''2024-01-04'', ''2024-01-05'']
        \<and> map open_price aggregated = [10, 25 / 2]
        \<and> map high_price aggregated = [13, 15]
        \<and> map low_price aggregated = [9, 11]
        \<and> map close_price aggregated = [12, 14]
        \<and> length aggregated = 2"
    by (intro conjI)
  then have "\<exists>all_rows filtered aggregated.
          fetch_stock_rows_from_alpha_vantage (Some ''demo'') ?get ?float
            ''ibm'' ''daily'' None ''full'' ''60min'' = Inr all_rows
        \<and> filter_by_date all_rows ''2024-01-01'' ''2024-01-31'' = Inr filtered
        \<and> group_by_period filtered ''daily'' = Inr aggregated
        \<and> map date aggregated = [''2024-01-04'', ''2024-01-05'']
        \<and> map open_price aggregated = [10, 25 / 2]
        \<and> map high_price aggregated = [13, 15]
        \<and> map low_price aggregated = [9, 11]
        \<and> map close_price aggregated = [12, 14]
        \<and> length aggregated = 2"
    by (intro exI)
  with run show ?thesis by (rule conjI)
qed

subsection \<open>The credential\<close>

text \<open>
  Claim C10.  The result of the fetch, and so of the pipeline, does not depend on the
  \<open>api_key\<close> argument: two calls that differ in this argument only behave alike.  The
  credential is read from the environment: the request is only ever made with the
  environment's value under \<open>apikey\<close>.
\<close>

theorem fetch_ignores_api_key_argument:
  "fetch_stock_rows_from_alpha_vantage getenv requests_get pyfloat
       symbol period api_key1 outputsize intraday_interval
   = fetch_stock_rows_from_alpha_vantage getenv requests_get pyfloat
       symbol period api_key2 outputsize intraday_interval
   \<and> generate_chart_for_web getenv requests_get pyfloat
       symbol period start_date end_date api_key1 intraday_interval
   = generate_chart_for_web getenv requests_get pyfloat
       symbol period start_date end_date api_key2 intraday_interval
   \<and> fetch_stock_rows_from_alpha_vantage getenv requests_get pyfloat
       symbol period api_key1 outputsize intraday_interval
   = fetch_stock_rows_from_alpha_vantage getenv
       (\<lambda>params. if map_of params ''apikey'' = getenv then requests_get params else Timeout)
       pyfloat symbol period api_key1 outputsize intraday_interval"
proof -
  have 1: "fetch_stock_rows_from_alpha_vantage getenv requests_get pyfloat
       symbol period k1 os intraday_interval
   = fetch_stock_rows_from_alpha_vantage getenv requests_get pyfloat
       symbol period k2 os intraday_interval" for k1 k2 os
    by (simp add: fetch_stock_rows_from_alpha_vantage_def)
  have 2: "fetch_stock_rows_from_alpha_vantage getenv requests_get pyfloat
       symbol period api_key1 outputsize intraday_interval
   = fetch_stock_rows_from_alpha_vantage getenv
       (\<lambda>params. if map_of params ''apikey'' = getenv then requests_get params else Timeout)
       pyfloat symbol period api_key1 outputsize intraday_interval"
    by (cases getenv) (simp_all add: fetch_stock_rows_from_alpha_vantage_def Let_def
        split: prod.splits)
  show ?thesis
    using 1 [of api_key1 "''full''" api_key2] 1 [of api_key1 outputsize api_key2] 2
    by (simp add: generate_chart_for_web_def)
qed

subsection \<open>The date filter\<close>

lemma parse_date_error: "parse_date s = Inl e \<Longrightarrow> e = ValueError"
  by (auto simp: parse_date_def split: option.splits)

lemma parses_iff: "parses s \<longleftrightarrow> (\<exists>t. parse_date s = Inr t)"
  by (cases "parse_date s") (auto simp: parses_def)

lemma filter_rows_all_parse:
  "(\<And>r. r \<in> set rows \<Longrightarrow> parses (date r)) \<Longrightarrow>
   filter_rows start end rows = Inr (filter (in_window start end) rows)"
proof (induction rows)
  case Nil
  then show ?case by simp
next
  case (Cons r rows)
  from Cons.prems have "parses (date r)" by simp
  then obtain t where t: "parse_date (date r) = Inr t" by (auto simp: parses_iff)
  have "filter_rows start end rows = Inr (filter (in_window start end) rows)"
    using Cons by simp
  moreover have "in_window start end r \<longleftrightarrow> dt_le start t \<and> dt_le t end"
    using t by (simp add: in_window_def date_obj_of_def)
  ultimately show ?case using t by simp
qed

lemma filter_rows_some_fails:
  "\<exists>r\<in>set rows. \<not> parses (date r) \<Longrightarrow> filter_rows start end rows = Inl ValueError"
proof (induction rows)
  case Nil
  then show ?case by simp
next
  case (Cons r rows)
  show ?case
  proof (cases "parse_date (date r)")
    case (Inl e)
    then show ?thesis using parse_date_error [OF Inl] by simp
  next
    case (Inr t)
    then have "parses (date r)" by (simp add: parses_def)
    with Cons.prems have "\<exists>r\<in>set rows. \<not> parses (date r)" by auto
    then have "filter_rows start end rows = Inl ValueError" by (rule Cons.IH)
    with Inr show ?thesis by simp
  qed
qed

subsection \<open>Where an empty payload is reported\<close>

lemma messages_differ:
  "no_data_for_symbol_message symbol period \<noteq> no_data_in_range_message start_date end_date"
  by (simp add: no_data_for_symbol_message_def no_data_in_range_message_def)

text \<open>
  Claim C1 says that the fetch stage does not fail on a time series without entries and that
  \<open>NoDataAvailableError\<close> is never raised before the filter.  The fetch stage checks the
  time series itself: on a response whose time series is empty it raises
  \<open>NoDataAvailableError\<close>.
\<close>

theorem empty_payload_counterexample:
  "fetch_stock_rows_from_alpha_vantage (Some ''demo'')
     (\<lambda>params. Body (JObj [(''Meta Data'', JObj []), (''Time Series (Daily)'', JObj [])]))
     (\<lambda>t. None) ''IBM'' ''daily'' None ''full'' ''60min''
   = Inl (NoDataAvailableError (no_data_for_symbol_message ''IBM'' ''daily''))"
  by code_simp

text \<open>
  Claim C1 as amended.  When the symbol is not blank, the credential is set and the first
  key of the response that contains \<open>Time Series\<close> holds an empty object, the fetch stage
  raises \<open>NoDataAvailableError\<close> with the message about the symbol, and both entry points end
  there, before the filter, whatever the bounds.  The filter, given bounds that parse with
  start not after end and rows whose dates all parse, raises \<open>NoDataAvailableError\<close> with the
  message about the date range when no row lies in the window.  The two messages differ,
  whatever symbol, period and bounds they name.
\<close>

theorem empty_payload_raises_in_fetch:
  "(strip symbol \<noteq> [] \<and> getenv = Some k \<and> k \<noteq> []
      \<and> (\<forall>params. requests_get params = Body (JObj data))
      \<and> find (\<lambda>(key, v). contains ''Time Series'' key) data = Some (series_key, JObj []) \<longrightarrow>
    (\<exists>sym.
       fetch_stock_rows_from_alpha_vantage getenv requests_get pyfloat
         symbol period api_key outputsize intraday_interval
       = Inl (NoDataAvailableError (no_data_for_symbol_message sym period))
     \<and> generate_chart_for_web getenv requests_get pyfloat
         symbol period start_date end_date api_key intraday_interval
       = Inl (NoDataAvailableError (no_data_for_symbol_message sym period))
     \<and> generate_chart_from_api getenv requests_get pyfloat
         symbol period start_date end_date api_key intraday_interval
       = Inl (NoDataAvailableError (no_data_for_symbol_message sym period))))
   \<and> (parse_date first_date = Inr start_dt \<and> parse_date last_date = Inr end_dt
        \<and> dt_le start_dt end_dt
        \<and> (\<forall>r\<in>set rows. parses (date r) \<and> \<not> in_window start_dt end_dt r) \<longrightarrow>
       filter_by_date rows first_date last_date
       = Inl (NoDataAvailableError (no_data_in_range_message first_date last_date)))
   \<and> no_data_for_symbol_message any_symbol any_period
       \<noteq> no_data_in_range_message any_start any_end"
proof (intro conjI impI)
  assume h: "strip symbol \<noteq> [] \<and> getenv = Some k \<and> k \<noteq> []
      \<and> (\<forall>params. requests_get params = Body (JObj data))
      \<and> find (\<lambda>(key, v). contains ''Time Series'' key) data = Some (series_key, JObj [])"
  then have sym: "symbol \<noteq> []" by (auto simp: strip_def)
  have ex: "extract_time_series_from_response data = Inr (series_key, JObj [])"
    using h by (simp add: extract_time_series_from_response_def)
  have fetch: "fetch_stock_rows_from_alpha_vantage getenv requests_get pyfloat
           symbol period api_key os intraday_interval
         = Inl (NoDataAvailableError (no_data_for_symbol_message (upper (strip symbol)) period))"
    for os
    using h sym
    by (simp add: fetch_stock_rows_from_alpha_vantage_def Let_def rows_of_body_def ex
        truthy_def split: prod.splits)
  show "\<exists>sym.
       fetch_stock_rows_from_alpha_vantage getenv requests_get pyfloat
         symbol period api_key outputsize intraday_interval
       = Inl (NoDataAvailableError (no_data_for_symbol_message sym period))
     \<and> generate_chart_for_web getenv requests_get pyfloat
         symbol period start_date end_date api_key intraday_interval
       = Inl (NoDataAvailableError (no_data_for_symbol_message sym period))
     \<and> generate_chart_from_api getenv requests_get pyfloat
         symbol period start_date end_date api_key intraday_interval
       = Inl (NoDataAvailableError (no_data_for_symbol_message sym period))"
    using fetch
    by (intro exI [of _ "upper (strip symbol)"])
      (simp add: generate_chart_for_web_def generate_chart_from_api_def)
next
  assume h: "parse_date first_date = Inr start_dt \<and> parse_date last_date = Inr end_dt
        \<and> dt_le start_dt end_dt
        \<and> (\<forall>r\<in>set rows. parses (date r) \<and> \<not> in_window start_dt end_dt r)"
  then have "filter (in_window start_dt end_dt) rows = []"
    by (simp add: filter_empty_conv)
  moreover have "filter_rows start_dt end_dt rows = Inr (filter (in_window start_dt end_dt) rows)"
    using h by (intro filter_rows_all_parse) simp
  ultimately have fr: "filter_rows start_dt end_dt rows = Inr []" by simp
  have "\<not> dt_less end_dt start_dt"
    using h by (auto simp: dt_le_def dt_less_def)
  then show "filter_by_date rows first_date last_date
       = Inl (NoDataAvailableError (no_data_in_range_message first_date last_date))"
    using h by (simp add: filter_by_date_def fr)
next
  show "no_data_for_symbol_message any_symbol any_period
       \<noteq> no_data_in_range_message any_start any_end"
    by (rule messages_differ)
qed

theorem empty_payload_raises_in_fetch_witness:
  "(\<exists>sym. generate_chart_for_web (Some ''demo'')
       (\<lambda>params. Body (JObj [(''Meta Data'', JObj []), (''Time Series (Daily)'', JObj [])]))
       (\<lambda>t. None) ''ibm'' ''daily'' ''not a date'' ''2024-01-31'' None ''60min''
     = Inl (NoDataAvailableError (no_data_for_symbol_message sym ''daily'')))
   \<and> filter_by_date
       [\<lparr>date = ''2024-02-01'', open_price = 10, high_price = 12, low_price = 9, close_price = 11\<rparr>]
       ''2024-01-01'' ''2024-01-31''
   = Inl (NoDataAvailableError (no_data_in_range_message ''2024-01-01'' ''2024-01-31''))"
proof -
  let ?data = "[(''Meta Data'', JObj []), (''Time Series (Daily)'', JObj [])]"
  let ?rows = "[\<lparr>date = ''2024-02-01'', open_price = 10, high_price = 12, low_price = 9,
                 close_price = 11\<rparr>]"
  let ?start = "\<lparr>year = 2024, month = 1, day = 1, hour = 0, minute = 0, second = 0\<rparr>"
  let ?end = "\<lparr>year = 2024, month = 1, day = 31, hour = 0, minute = 0, second = 0\<rparr>"
  have h1: "strip ''ibm'' \<noteq> []" by code_simp
  have h2: "find (\<lambda>(key, v). contains ''Time Series'' key) ?data
            = Some (''Time Series (Daily)'', JObj [])" by simp
  have h3: "parse_date ''2024-01-01'' = Inr ?start" by code_simp
  have h4: "parse_date ''2024-01-31'' = Inr ?end" by code_simp
  have h5: "dt_le ?start ?end" by code_simp
  have h6: "\<forall>r\<in>set ?rows. parses (date r) \<and> \<not> in_window ?start ?end r" by code_simp
  note t = empty_payload_raises_in_fetch [where symbol = "''ibm''" and getenv = "Some ''demo''"
      and k = "''demo''" and requests_get = "\<lambda>params. Body (JObj ?data)" and data = ?data
      and series_key = "''Time Series (Daily)''" and pyfloat = "\<lambda>t. None" and period = "''daily''"
      and start_date = "''not a date''" and end_date = "''2024-01-31''" and api_key = None
      and intraday_interval = "''60min''"
      and first_date = "''2024-01-01''" and start_dt = ?start and last_date = "''2024-01-31''"
      and end_dt = ?end and rows = ?rows]
  from t h1 h2 have "\<exists>sym. generate_chart_for_web (Some ''demo'')
       (\<lambda>params. Body (JObj ?data))
       (\<lambda>t. None) ''ibm'' ''daily'' ''not a date'' ''2024-01-31'' None ''60min''
     = Inl (NoDataAvailableError (no_data_for_symbol_message sym ''daily''))"
    by blast
  moreover from t h3 h4 h5 h6 have "filter_by_date ?rows ''2024-01-01'' ''2024-01-31''
   = Inl (NoDataAvailableError (no_data_in_range_message ''2024-01-01'' ''2024-01-31''))"
    by blast
  ultimately show ?thesis by blast
qed

subsection \<open>Grouping\<close>

lemma group_label_error: "group_label period r = Inl e \<Longrightarrow> e = ValueError \<and> \<not> parses (date r)"
  by (auto simp: group_label_def parses_def split: sum.splits if_splits prod.splits
      dest: parse_date_error)

lemma group_label_parses: "parses (date r) \<Longrightarrow> \<exists>l. group_label period r = Inr l"
  by (auto simp: group_label_def parses_iff split: prod.splits)

lemma append_to_group_eq:
  "distinct (map fst G) \<Longrightarrow>
   append_to_group l r G =
     (if l \<in> fst ` set G then map (\<lambda>(k, rs). if k = l then (k, rs @ [r]) else (k, rs)) G
      else G @ [(l, [r])])"
proof (induction G)
  case Nil
  then show ?case by simp
next
  case (Cons g G)
  obtain k rs where g: "g = (k, rs)" by (cases g)
  from Cons.prems g have k: "k \<notin> fst ` set G" and d: "distinct (map fst G)" by auto
  show ?case
  proof (cases "k = l")
    case True
    with k have "map (\<lambda>(k, rs). if k = l then (k, rs @ [r]) else (k, rs)) G = G"
      by (intro map_idI) (auto simp: image_iff)
    with True g show ?thesis by simp
  next
    case False
    with g Cons.IH [OF d] show ?thesis by auto
  qed
qed

lemma bucket_snoc:
  "bucket period (pre @ [r]) l =
     bucket period pre l @ (if group_label period r = Inr l then [r] else [])"
  by (simp add: bucket_def)

lemma bucket_empty_iff:
  "bucket period rows l = [] \<longleftrightarrow> (\<forall>r\<in>set rows. group_label period r \<noteq> Inr l)"
  by (auto simp: bucket_def filter_empty_conv)

lemma append_to_group_inv:
  assumes d: "distinct (map fst G)"
    and b: "\<And>k rs. (k, rs) \<in> set G \<Longrightarrow> rs = bucket period pre k \<and> rs \<noteq> []"
    and ks: "fst ` set G = {k. bucket period pre k \<noteq> []}"
    and l: "group_label period r = Inr l"
  shows "distinct (map fst (append_to_group l r G))"
    and "\<And>k rs. (k, rs) \<in> set (append_to_group l r G) \<Longrightarrow>
           rs = bucket period (pre @ [r]) k \<and> rs \<noteq> []"
    and "fst ` set (append_to_group l r G) = {k. bucket period (pre @ [r]) k \<noteq> []}"
proof -
  let ?upd = "\<lambda>(k, rs). if k = l then (k, rs @ [r]) else (k, rs)"
  have fst_upd: "map fst (map ?upd G) = map fst G"
    by (induction G) (auto split: prod.splits)
  have keys: "{k. bucket period (pre @ [r]) k \<noteq> []} = insert l {k. bucket period pre k \<noteq> []}"
    using l by (auto simp: bucket_snoc)
  show "distinct (map fst (append_to_group l r G))"
    using d by (auto simp: append_to_group_eq [OF d] fst_upd simp del: map_map)
  show "fst ` set (append_to_group l r G) = {k. bucket period (pre @ [r]) k \<noteq> []}"
  proof (cases "l \<in> fst ` set G")
    case True
    have "fst ` set (map ?upd G) = fst ` set G"
      using fst_upd by (metis list.set_map)
    with True show ?thesis
      using ks by (auto simp: append_to_group_eq [OF d] keys simp del: set_map)
  next
    case False
    then show ?thesis
      using ks by (auto simp: append_to_group_eq [OF d] keys)
  qed
  fix k rs
  assume in': "(k, rs) \<in> set (append_to_group l r G)"
  show "rs = bucket period (pre @ [r]) k \<and> rs \<noteq> []"
  proof (cases "l \<in> fst ` set G")
    case True
    with in' have "(k, rs) \<in> ?upd ` set G"
      by (simp add: append_to_group_eq [OF d])
    then obtain k' rs' where g: "(k', rs') \<in> set G" and e: "(k, rs) = ?upd (k', rs')"
      by auto
    from b [OF g] have rs': "rs' = bucket period pre k'" "rs' \<noteq> []" by auto
    show ?thesis
    proof (cases "k' = l")
      case True
      with e have "k = l" "rs = rs' @ [r]" by auto
      with rs' True l show ?thesis by (simp add: bucket_snoc)
    next
      case False
      with e have "k = k'" "rs = rs'" by auto
      with rs' False l show ?thesis by (auto simp: bucket_snoc)
    qed
  next
    case False
    with in' consider "(k, rs) \<in> set G" | "k = l" "rs = [r]"
      by (auto simp: append_to_group_eq [OF d])
    then show ?thesis
    proof cases
      case 1
      with False have "k \<noteq> l" by (auto simp: image_iff)
      with b [OF 1] l show ?thesis by (auto simp: bucket_snoc)
    next
      case 2
      from False ks have "bucket period pre l = []" by auto
      with 2 l show ?thesis by (simp add: bucket_snoc)
    qed
  qed
qed

lemma group_rows_inv:
  assumes "\<And>r. r \<in> set rows \<Longrightarrow> parses (date r)"
    and "distinct (map fst G)"
    and "\<And>k rs. (k, rs) \<in> set G \<Longrightarrow> rs = bucket period pre k \<and> rs \<noteq> []"
    and "fst ` set G = {k. bucket period pre k \<noteq> []}"
  shows "\<exists>G'. group_rows period rows G = Inr G' \<and> distinct (map fst G')
           \<and> (\<forall>(k, rs)\<in>set G'. rs = bucket period (pre @ rows) k \<and> rs \<noteq> [])
           \<and> fst ` set G' = {k. bucket period (pre @ rows) k \<noteq> []}"
  using assms
proof (induction rows arbitrary: G pre)
  case Nil
  then show ?case by auto
next
  case (Cons r rows)
  from Cons.prems(1) have "parses (date r)" by simp
  then obtain l where l: "group_label period r = Inr l"
    using group_label_parses by blast
  note inv = append_to_group_inv [OF Cons.prems(2) Cons.prems(3) Cons.prems(4) l]
  have "\<exists>G'. group_rows period rows (append_to_group l r G) = Inr G' \<and> distinct (map fst G')
           \<and> (\<forall>(k, rs)\<in>set G'. rs = bucket period ((pre @ [r]) @ rows) k \<and> rs \<noteq> [])
           \<and> fst ` set G' = {k. bucket period ((pre @ [r]) @ rows) k \<noteq> []}"
  proof (rule Cons.IH)
    show "\<And>r. r \<in> set rows \<Longrightarrow> parses (date r)" using Cons.prems(1) by simp
    show "distinct (map fst (append_to_group l r G))" by (rule inv(1))
    show "\<And>k rs. (k, rs) \<in> set (append_to_group l r G) \<Longrightarrow>
           rs = bucket period (pre @ [r]) k \<and> rs \<noteq> []" by (rule inv(2))
    show "fst ` set (append_to_group l r G) = {k. bucket period (pre @ [r]) k \<noteq> []}"
      by (rule inv(3))
  qed
  with l show ?case by simp
qed

lemma group_rows_fails:
  "\<exists>r\<in>set rows. \<not> parses (date r) \<Longrightarrow> group_rows period rows G = Inl ValueError"
proof (induction rows arbitrary: G)
  case Nil
  then show ?case by simp
next
  case (Cons r rows)
  show ?case
  proof (cases "group_label period r")
    case (Inl e)
    then show ?thesis using group_label_error [OF Inl] by simp
  next
    case (Inr l)
    then have "parses (date r)"
      by (auto simp: group_label_def parses_def split: sum.splits)
    with Cons.prems have "\<exists>r\<in>set rows. \<not> parses (date r)" by auto
    then have "group_rows period rows (append_to_group l r G) = Inl ValueError"
      by (rule Cons.IH)
    with Inr show ?thesis by simp
  qed
qed

subsection \<open>Combining a group\<close>

lemma max_of_eq: "xs \<noteq> [] \<Longrightarrow> max_of xs = Max (set xs)"
proof (cases xs)
  case Nil
  then show "xs \<noteq> [] \<Longrightarrow> ?thesis" by simp
next
  case (Cons x ys)
  have "foldl max x ys = fold max ys x"
    by (simp add: foldl_conv_fold max.commute)
  moreover have "Max (set (x # ys)) = fold max ys x"
    by (rule Max.set_eq_fold)
  ultimately have "foldl max x ys = Max (set (x # ys))" by simp
  then show ?thesis
    unfolding Cons max_of_def by simp
qed

lemma min_of_eq: "xs \<noteq> [] \<Longrightarrow> min_of xs = Min (set xs)"
proof (cases xs)
  case Nil
  then show "xs \<noteq> [] \<Longrightarrow> ?thesis" by simp
next
  case (Cons x ys)
  have "foldl min x ys = fold min ys x"
    by (simp add: foldl_conv_fold min.commute)
  moreover have "Min (set (x # ys)) = fold min ys x"
    by (rule Min.set_eq_fold)
  ultimately have "foldl min x ys = Min (set (x # ys))" by simp
  then show ?thesis
    unfolding Cons min_of_def by simp
qed

lemma combine_group_eq:
  assumes "rs \<noteq> []"
  shows "combine_group (l, rs) = Inr (ohlc_rollup l rs)"
proof -
  have ne: "sort_key date rs \<noteq> []"
    using assms by (metis length_sort length_0_conv)
  then obtain r rs' where s: "sort_key date rs = r # rs'"
    by (cases "sort_key date rs") auto
  have set_eq: "set (r # rs') = set rs"
    using s by (metis set_sort)
  have "set (map high_price (r # rs')) = high_price ` set rs"
    using set_eq by (simp only: set_map)
  then have hi: "max_of (map high_price (r # rs')) = Max (high_price ` set rs)"
    using max_of_eq [of "map high_price (r # rs')"] by simp
  have "set (map low_price (r # rs')) = low_price ` set rs"
    using set_eq by (simp only: set_map)
  then have lo: "min_of (map low_price (r # rs')) = Min (low_price ` set rs)"
    using min_of_eq [of "map low_price (r # rs')"] by simp
  show ?thesis
    unfolding combine_group_def ohlc_rollup_def
    using s hi lo by (simp del: max_of_def last.simps set_simps)
qed

lemma combine_groups_eq:
  "(\<And>l rs. (l, rs) \<in> set G \<Longrightarrow> rs \<noteq> []) \<Longrightarrow>
   combine_groups G = Inr (map (\<lambda>(l, rs). ohlc_rollup l rs) G)"
proof (induction G)
  case Nil
  then show ?case by simp
next
  case (Cons g G)
  obtain l rs where g: "g = (l, rs)" by (cases g)
  with Cons.prems have "rs \<noteq> []" by auto
  then have "combine_group g = Inr (ohlc_rollup l rs)"
    unfolding g by (rule combine_group_eq)
  moreover have "combine_groups G = Inr (map (\<lambda>(l, rs). ohlc_rollup l rs) G)"
    using Cons by auto
  ultimately show ?case using g by simp
qed

lemma group_by_period_grouped:
  assumes period: "period \<noteq> ''intraday''" "period \<noteq> ''daily''"
    and rows: "\<And>r. r \<in> set rows \<Longrightarrow> parses (date r)"
  shows "\<exists>G. distinct (map fst G)
           \<and> set G = {(k, bucket period rows k) | k. bucket period rows k \<noteq> []}
           \<and> group_by_period rows period
               = Inr (sort_key date (map (\<lambda>(l, rs). ohlc_rollup l rs) G))"
proof -
  have "\<exists>G'. group_rows period rows [] = Inr G' \<and> distinct (map fst G')
           \<and> (\<forall>(k, rs)\<in>set G'. rs = bucket period ([] @ rows) k \<and> rs \<noteq> [])
           \<and> fst ` set G' = {k. bucket period ([] @ rows) k \<noteq> []}"
    by (rule group_rows_inv) (use rows in \<open>auto simp: bucket_def\<close>)
  then obtain G where G: "group_rows period rows [] = Inr G" "distinct (map fst G)"
    and b: "\<And>k rs. (k, rs) \<in> set G \<Longrightarrow> rs = bucket period rows k \<and> rs \<noteq> []"
    and ks: "fst ` set G = {k. bucket period rows k \<noteq> []}"
    by fastforce
  have set_G: "set G = {(k, bucket period rows k) | k. bucket period rows k \<noteq> []}"
  proof (rule set_eqI)
    fix g :: "string \<times> row list"
    obtain k rs where g: "g = (k, rs)" by (cases g)
    show "g \<in> set G \<longleftrightarrow> g \<in> {(k, bucket period rows k) | k. bucket period rows k \<noteq> []}"
    proof
      assume "g \<in> set G"
      with g b [of k rs] show "g \<in> {(k, bucket period rows k) | k. bucket period rows k \<noteq> []}"
        by auto
    next
      assume "g \<in> {(k, bucket period rows k) | k. bucket period rows k \<noteq> []}"
      with g have rs: "rs = bucket period rows k" "bucket period rows k \<noteq> []" by auto
      with ks have "k \<in> fst ` set G" by auto
      then obtain rs' where "(k, rs') \<in> set G" by auto
      with b [of k rs'] rs g show "g \<in> set G" by auto
    qed
  qed
  have "combine_groups G = Inr (map (\<lambda>(l, rs). ohlc_rollup l rs) G)"
    by (rule combine_groups_eq) (use b in auto)
  with G period have "group_by_period rows period
               = Inr (sort_key date (map (\<lambda>(l, rs). ohlc_rollup l rs) G))"
    by (simp add: group_by_period_def)
  with G(2) set_G show ?thesis by blast
qed

lemma group_by_period_fails:
  assumes "period \<noteq> ''intraday''" "period \<noteq> ''daily''"
    and "\<exists>r\<in>set rows. \<not> parses (date r)"
  shows "group_by_period rows period = Inl ValueError"
  using assms by (simp add: group_by_period_def group_rows_fails)

lemma date_ohlc_rollup [simp]: "date (ohlc_rollup l rs) = l"
  by (simp add: ohlc_rollup_def Let_def)

subsection \<open>The invariant of price records\<close>

lemma ohlc_rollup_ok:
  assumes ne: "rs \<noteq> []" and ok: "\<And>r. r \<in> set rs \<Longrightarrow> ohlc_ok r"
  shows "ohlc_ok (ohlc_rollup l rs)"
proof -
  let ?s = "sort_key date rs"
  have sne: "?s \<noteq> []" using ne by (metis length_sort length_0_conv)
  have "hd ?s \<in> set ?s" "last ?s \<in> set ?s"
    using sne by (rule hd_in_set, rule last_in_set)
  then have f: "hd ?s \<in> set rs" and l: "last ?s \<in> set rs" by simp_all
  have fin: "finite (high_price ` set rs)" "finite (low_price ` set rs)" by simp_all
  have hi: "high_price r \<le> Max (high_price ` set rs)" if "r \<in> set rs" for r
    using that by (intro Max_ge) auto
  have lo: "Min (low_price ` set rs) \<le> low_price r" if "r \<in> set rs" for r
    using that by (intro Min_le) auto
  from ok [OF f] ok [OF l] hi [OF f] hi [OF l] lo [OF f] lo [OF l]
  show ?thesis
    by (simp add: ohlc_ok_def ohlc_rollup_def Let_def)
qed

text \<open>
  Claim C9.  When every input record has its high at least its open, close and low, and its
  low at most its open, close and high, then whatever the resolution the aggregation either
  returns records that all have this property, or raises \<open>ValueError\<close> because the date of
  some input record does not parse.
\<close>

theorem aggregation_preserves_ohlc_invariant:
  assumes ok: "\<And>r. r \<in> set rows \<Longrightarrow> ohlc_ok r"
  shows "case group_by_period rows period of
           Inl e \<Rightarrow> e = ValueError \<and> (\<exists>r\<in>set rows. \<not> parses (date r))
         | Inr out \<Rightarrow> (\<forall>r\<in>set out. ohlc_ok r)"
proof (cases "period = ''intraday'' \<or> period = ''daily''")
  case True
  then have "group_by_period rows period = Inr (sort_key date rows)"
    by (auto simp: group_by_period_def)
  then show ?thesis using ok by simp
next
  case False
  then have period: "period \<noteq> ''intraday''" "period \<noteq> ''daily''" by simp_all
  show ?thesis
  proof (cases "\<exists>r\<in>set rows. \<not> parses (date r)")
    case True
    then show ?thesis using group_by_period_fails [OF period True] by simp
  next
    case False
    then have "\<And>r. r \<in> set rows \<Longrightarrow> parses (date r)" by blast
    from group_by_period_grouped [OF period this]
    obtain G where G: "set G = {(k, bucket period rows k) | k. bucket period rows k \<noteq> []}"
      and out: "group_by_period rows period
                 = Inr (sort_key date (map (\<lambda>(l, rs). ohlc_rollup l rs) G))"
      by blast
    have "ohlc_ok (ohlc_rollup k rs)" if "(k, rs) \<in> set G" for k rs
    proof (rule ohlc_rollup_ok)
      from that G have rs: "rs = bucket period rows k" "rs \<noteq> []" by auto
      show "rs \<noteq> []" by fact
      show "\<And>r. r \<in> set rs \<Longrightarrow> ohlc_ok r" using rs ok by (simp add: bucket_def)
    qed
    then show ?thesis using out by auto
  qed
qed

theorem aggregation_preserves_ohlc_invariant_witness:
  "group_by_period
     [\<lparr>date = ''2025-01-02'', open_price = 12, high_price = 15, low_price = 11, close_price = 14\<rparr>,
      \<lparr>date = ''2024-12-30'', open_price = 10, high_price = 13, low_price = 9, close_price = 12\<rparr>]
     ''weekly''
   = Inr [\<lparr>date = ''2025-W01'', open_price = 10, high_price = 15, low_price = 9, close_price = 14\<rparr>]
   \<and> ohlc_ok \<lparr>date = ''2025-W01'', open_price = 10, high_price = 15, low_price = 9, close_price = 14\<rparr>"
proof -
  let ?rows = "[\<lparr>date = ''2025-01-02'', open_price = 12, high_price = 15, low_price = 11, close_price = 14\<rparr>,
      \<lparr>date = ''2024-12-30'', open_price = 10, high_price = 13, low_price = 9, close_price = 12\<rparr>]"
  have h: "\<And>r. r \<in> set ?rows \<Longrightarrow> ohlc_ok r" by (auto simp: ohlc_ok_def)
  have e: "group_by_period ?rows ''weekly''
   = Inr [\<lparr>date = ''2025-W01'', open_price = 10, high_price = 15, low_price = 9, close_price = 14\<rparr>]"
    by code_simp
  show ?thesis
    using aggregation_preserves_ohlc_invariant [where rows = ?rows and period = "''weekly''", OF h] e by simp
qed

subsection \<open>Resolutions that are not recognised\<close>



lemma lower_recognized:
  "period \<in> {''intraday'', ''daily'', ''weekly'', ''monthly''} \<Longrightarrow> lower period = period"
  by (auto simp: lower_def lower_char_def code_point_def)








subsection \<open>Calendar arithmetic\<close>

lemma div_step:
  fixes y k :: int
  assumes "0 < k"
  shows "y div k = (y - 1) div k + (if y mod k = 0 then 1 else 0)"
proof -
  define q r where "q = (y - 1) div k" and "r = (y - 1) mod k"
  have r: "0 \<le> r" "r < k" using assms by (simp_all add: r_def)
  have y: "y = k * q + (r + 1)"
    unfolding q_def r_def by (simp add: algebra_simps)
  show ?thesis
  proof (cases "r + 1 = k")
    case True
    with y have "y = k * (q + 1)" by (simp add: algebra_simps)
    then have "y div k = q + 1" "y mod k = 0" using assms by simp_all
    then show ?thesis by (simp add: q_def)
  next
    case False
    with r have r1: "0 \<le> r + 1" "r + 1 < k" by simp_all
    have "y div k = q" by (rule int_div_pos_eq [OF y r1])
    moreover have "y mod k = r + 1" by (rule int_mod_pos_eq [OF y r1])
    ultimately show ?thesis using r by (simp add: q_def)
  qed
qed

lemma week_index_and_day:
  fixes n f :: int
  defines "w1 \<equiv> (if (f + 6) mod 7 > 3 then f - (f + 6) mod 7 + 7 else f - (f + 6) mod 7)"
  shows "(n - w1) div 7 = ((n - (n + 6) mod 7 + 3) - f) div 7"
    and "(n - w1) mod 7 = (n + 6) mod 7"
proof -
  define k qf a qn where "k = (f + 6) mod 7" and "qf = (f + 6) div 7"
    and "a = (n + 6) mod 7" and "qn = (n + 6) div 7"
  have k: "0 \<le> k" "k < 7" and a: "0 \<le> a" "a < 7" by (simp_all add: k_def a_def)
  have f: "f = 7 * qf + k - 6" unfolding k_def qf_def by (simp add: algebra_simps)
  have n: "n = 7 * qn + a - 6" unfolding a_def qn_def by (simp add: algebra_simps)
  have w1: "w1 = (if k > 3 then 7 * qf + 1 else 7 * qf - 6)"
    unfolding w1_def k_def [symmetric] using f by simp
  show "(n - w1) mod 7 = (n + 6) mod 7"
  proof (cases "k > 3")
    case True
    then have e: "n - w1 = 7 * (qn - qf - 1) + a" using w1 n by simp
    have "(n - w1) mod 7 = a" by (rule int_mod_pos_eq [OF e a])
    then show ?thesis by (simp only: a_def)
  next
    case False
    then have e: "n - w1 = 7 * (qn - qf) + a" using w1 n by simp
    have "(n - w1) mod 7 = a" by (rule int_mod_pos_eq [OF e a])
    then show ?thesis by (simp only: a_def)
  qed
  have th: "n - (n + 6) mod 7 + 3 - f = 7 * (qn - qf) + (3 - k)"
    unfolding a_def [symmetric] using n f by simp
  show "(n - w1) div 7 = ((n - (n + 6) mod 7 + 3) - f) div 7"
  proof (cases "k > 3")
    case True
    then have 1: "n - w1 = 7 * (qn - qf - 1) + a" using w1 n by simp
    have 2: "n - (n + 6) mod 7 + 3 - f = 7 * (qn - qf - 1) + (10 - k)" using th by simp
    have "(n - w1) div 7 = qn - qf - 1" by (rule int_div_pos_eq [OF 1 a])
    moreover have "(n - (n + 6) mod 7 + 3 - f) div 7 = qn - qf - 1"
      by (rule int_div_pos_eq [OF 2]) (use True k in simp_all)
    ultimately show ?thesis by simp
  next
    case False
    then have 1: "n - w1 = 7 * (qn - qf) + a" using w1 n by simp
    have "(n - w1) div 7 = qn - qf" by (rule int_div_pos_eq [OF 1 a])
    moreover have "(n - (n + 6) mod 7 + 3 - f) div 7 = qn - qf"
      by (rule int_div_pos_eq [OF th]) (use False k in simp_all)
    ultimately show ?thesis by simp
  qed
qed

lemma mod_0_trans:
  fixes y :: int
  assumes "k dvd l" "y mod l = 0"
  shows "y mod k = 0"
  using assms by (meson dvd_trans mod_0_imp_dvd dvd_imp_mod_0)

lemma days_before_year_step:
  "days_before_year (y + 1) = days_before_year y + (if is_leap y then 366 else 365)"
proof -
  define a4 a100 a400 where "a4 = (y - 1) div 4" and "a100 = (y - 1) div 100"
    and "a400 = (y - 1) div 400"
  define c4 c100 c400 :: int where "c4 = (if y mod 4 = 0 then 1 else 0)"
    and "c100 = (if y mod 100 = 0 then 1 else 0)" and "c400 = (if y mod 400 = 0 then 1 else 0)"
  have 4: "y div 4 = a4 + c4"
    unfolding a4_def c4_def by (rule div_step) simp
  have 100: "y div 100 = a100 + c100"
    unfolding a100_def c100_def by (rule div_step) simp
  have 400: "y div 400 = a400 + c400"
    unfolding a400_def c400_def by (rule div_step) simp
  have a: "y mod 400 = 0 \<Longrightarrow> y mod 100 = 0"
    by (rule mod_0_trans [of 100 400]) simp_all
  have b: "y mod 100 = 0 \<Longrightarrow> y mod 4 = 0"
    by (rule mod_0_trans [of 4 100]) simp_all
  have old: "days_before_year y = (y - 1) * 365 + a4 - a100 + a400"
    unfolding days_before_year_def Let_def a4_def a100_def a400_def by (rule refl)
  have "days_before_year (y + 1) = y * 365 + y div 4 - y div 100 + y div 400"
    unfolding days_before_year_def Let_def by (simp only: add_diff_cancel_right')
  also have "\<dots> = y * 365 + (a4 + c4) - (a100 + c100) + (a400 + c400)"
    by (simp only: 4 100 400)
  also have "\<dots> = ((y - 1) * 365 + a4 - a100 + a400) + 365 + (c4 - c100 + c400)"
    by (simp add: algebra_simps)
  also have "\<dots> = days_before_year y + 365 + (c4 - c100 + c400)"
    by (simp only: old)
  finally have e: "days_before_year (y + 1) = days_before_year y + 365 + (c4 - c100 + c400)" .
  define p4 p100 p400 where "p4 \<longleftrightarrow> y mod 4 = 0" and "p100 \<longleftrightarrow> y mod 100 = 0"
    and "p400 \<longleftrightarrow> y mod 400 = 0"
  have imp: "p400 \<Longrightarrow> p100" "p100 \<Longrightarrow> p4"
    using a b by (simp_all only: p4_def p100_def p400_def)
  have c: "c4 = (if p4 then 1 else 0)" "c100 = (if p100 then 1 else 0)"
    "c400 = (if p400 then 1 else 0)"
    by (simp_all only: c4_def c100_def c400_def p4_def p100_def p400_def)
  have l: "is_leap y \<longleftrightarrow> p4 \<and> (\<not> p100 \<or> p400)"
    by (simp only: is_leap_def p4_def p100_def p400_def)
  have "c4 - c100 + c400 = (if is_leap y then 1 else 0)"
    unfolding c l using imp by (cases p4; cases p100; cases p400) simp_all
  then have "days_before_year (y + 1) = days_before_year y + 365 + (if is_leap y then 1 else 0)"
    using e by (simp only:)
  then show ?thesis by (cases "is_leap y") simp_all
qed

lemma ymd2ord_first: "ymd2ord y 1 1 = days_before_year y + 1"
  by (simp add: ymd2ord_def days_before_month_def)

lemma year_start_step:
  "ymd2ord (y + 1) 1 1 = ymd2ord y 1 1 + (if is_leap y then 366 else 365)"
  by (simp add: ymd2ord_first days_before_year_step)

lemma year_start_bounds:
  "ymd2ord y 1 1 + 365 \<le> ymd2ord (y + 1) 1 1" "ymd2ord (y + 1) 1 1 \<le> ymd2ord y 1 1 + 366"
  by (simp_all add: year_start_step)

lemma year_start_prev:
  "ymd2ord (y - 1) 1 1 + 365 \<le> ymd2ord y 1 1" "ymd2ord y 1 1 \<le> ymd2ord (y - 1) 1 1 + 366"
  using year_start_bounds [of "y - 1"] by simp_all

lemma ordinal_in_year:
  assumes "valid_datetime t"
  shows "ymd2ord (year t) 1 1 \<le> toordinal t" and "toordinal t < ymd2ord (year t + 1) 1 1"
proof -
  let ?y = "year t" and ?m = "month t" and ?d = "day t"
  from assms have m: "1 \<le> ?m" "?m \<le> 12" and d: "1 \<le> ?d" "?d \<le> days_in_month ?y ?m"
    by (simp_all add: valid_datetime_def)
  from m have mc: "?m = 1 \<or> ?m = 2 \<or> ?m = 3 \<or> ?m = 4 \<or> ?m = 5 \<or> ?m = 6 \<or> ?m = 7 \<or> ?m = 8
      \<or> ?m = 9 \<or> ?m = 10 \<or> ?m = 11 \<or> ?m = 12" by arith
  have b: "0 \<le> days_before_month ?y ?m"
    by (simp add: days_before_month_def)
  show "ymd2ord ?y 1 1 \<le> toordinal t"
    using b d by (simp add: toordinal_def ymd2ord_def days_before_month_def)
  have "days_before_month ?y ?m + days_in_month ?y ?m \<le> (if is_leap ?y then 366 else 365)"
    using mc by (elim disjE) (simp_all add: days_before_month_def days_in_month_def)
  with d have "days_before_month ?y ?m + ?d \<le> (if is_leap ?y then 366 else 365)"
    by simp
  then have "toordinal t \<le> days_before_year ?y + (if is_leap ?y then 366 else 365)"
    by (simp add: toordinal_def ymd2ord_def)
  then show "toordinal t < ymd2ord (?y + 1) 1 1"
    by (simp add: ymd2ord_first days_before_year_step)
qed

subsection \<open>ISO weeks\<close>

lemma isoweek1monday_alt:
  "isoweek1monday y =
     (if (ymd2ord y 1 1 + 6) mod 7 > 3 then ymd2ord y 1 1 - (ymd2ord y 1 1 + 6) mod 7 + 7
      else ymd2ord y 1 1 - (ymd2ord y 1 1 + 6) mod 7)"
  by (simp add: isoweek1monday_def Let_def)

lemma week_from_monday:
  "(toordinal t - isoweek1monday y) div 7 = (iso_thursday t - ymd2ord y 1 1) div 7"
  "(toordinal t - isoweek1monday y) mod 7 = (toordinal t + 6) mod 7"
  unfolding isoweek1monday_alt iso_thursday_def Let_def
  by (rule week_index_and_day)+

lemma iso_thursday_near:
  "toordinal t - 3 \<le> iso_thursday t" "iso_thursday t \<le> toordinal t + 3"
proof -
  have "0 \<le> (toordinal t + 6) mod 7" "(toordinal t + 6) mod 7 < 7" by simp_all
  then show "toordinal t - 3 \<le> iso_thursday t" "iso_thursday t \<le> toordinal t + 3"
    by (simp_all add: iso_thursday_def Let_def)
qed

lemma isocalendar_iso8601:
  assumes v: "valid_datetime t"
  shows "isocalendar t = (iso8601_year t, iso8601_week t, (toordinal t + 6) mod 7 + 1)"
proof -
  let ?y = "year t" and ?n = "toordinal t" and ?th = "iso_thursday t"
  let ?F = "ymd2ord (year t) 1 1" and ?Fn = "ymd2ord (year t + 1) 1 1"
  let ?Fp = "ymd2ord (year t - 1) 1 1"
  let ?wd = "(toordinal t + 6) mod 7 + 1"
  have today: "ymd2ord ?y (month t) (day t) = ?n" by (simp add: toordinal_def)
  note wk = week_from_monday [of t "?y"] week_from_monday [of t "?y - 1"]
    week_from_monday [of t "?y + 1"]
  have n: "?F \<le> ?n" "?n < ?Fn" using ordinal_in_year [OF v] by simp_all
  have th: "?n - 3 \<le> ?th" "?th \<le> ?n + 3" by (rule iso_thursday_near)+
  have c1: "(?th - ?F) div 7 < 0 \<longleftrightarrow> ?th < ?F"
    by (simp add: pos_imp_zdiv_neg_iff)
  have c2: "isoweek1monday (?y + 1) \<le> ?n \<longleftrightarrow> ?Fn \<le> ?th"
  proof -
    have "isoweek1monday (?y + 1) \<le> ?n \<longleftrightarrow> 0 \<le> (?n - isoweek1monday (?y + 1)) div 7"
      by (simp add: pos_imp_zdiv_nonneg_iff)
    also have "\<dots> \<longleftrightarrow> 0 \<le> (?th - ?Fn) div 7" by (simp only: wk)
    also have "\<dots> \<longleftrightarrow> ?Fn \<le> ?th" by (simp add: pos_imp_zdiv_nonneg_iff)
    finally show ?thesis .
  qed
  have c3: "52 \<le> (?th - ?F) div 7" if "?Fn \<le> ?th"
  proof -
    have "365 \<le> ?th - ?F" using that year_start_bounds(1) [of ?y] by simp
    then have "(365::int) div 7 \<le> (?th - ?F) div 7" by (rule zdiv_mono1) simp
    then show ?thesis by simp
  qed
  have c4: "(?th - ?Fn) div 7 = 0" if "?Fn \<le> ?th"
    by (rule div_pos_pos_trivial) (use that th n in simp_all)
  have iso: "isocalendar t =
     (if (?th - ?F) div 7 < 0 then (?y - 1, (?th - ?Fp) div 7 + 1, ?wd)
      else if 52 \<le> (?th - ?F) div 7 then
        (if isoweek1monday (?y + 1) \<le> ?n then (?y + 1, 1, ?wd)
         else (?y, (?th - ?F) div 7 + 1, ?wd))
      else (?y, (?th - ?F) div 7 + 1, ?wd))"
    unfolding isocalendar_def Let_def today by (simp only: wk)
  consider (before) "?th < ?F" | (after) "?Fn \<le> ?th" | (within) "?F \<le> ?th" "?th < ?Fn"
    by linarith
  then show ?thesis
  proof cases
    case before
    then have "isocalendar t = (?y - 1, (?th - ?Fp) div 7 + 1, ?wd)"
      by (simp only: iso c1 if_True)
    moreover from before have "iso8601_year t = ?y - 1"
      by (simp add: iso8601_year_def Let_def)
    ultimately show ?thesis by (simp add: iso8601_week_def)
  next
    case after
    then have nF: "\<not> ?th < ?F" using n th year_start_bounds(1) [of ?y] by simp
    from after have "isocalendar t = (?y + 1, 1, ?wd)"
      using c3 [OF after] nF by (simp only: iso c1 c2 if_True if_False)
    moreover from after nF have "iso8601_year t = ?y + 1"
      by (simp add: iso8601_year_def Let_def)
    ultimately show ?thesis using c4 [OF after] by (simp add: iso8601_week_def)
  next
    case within
    then have "isocalendar t = (?y, (?th - ?F) div 7 + 1, ?wd)"
      by (simp add: iso c1 c2)
    moreover from within have "iso8601_year t = ?y"
      by (simp add: iso8601_year_def Let_def)
    ultimately show ?thesis by (simp add: iso8601_week_def)
  qed
qed

lemma iso_thursday_in_iso_year:
  assumes v: "valid_datetime t"
  shows "ymd2ord (iso8601_year t) 1 1 \<le> iso_thursday t"
    and "iso_thursday t < ymd2ord (iso8601_year t + 1) 1 1"
proof -
  let ?y = "year t" and ?n = "toordinal t" and ?th = "iso_thursday t"
  have n: "ymd2ord ?y 1 1 \<le> ?n" "?n < ymd2ord (?y + 1) 1 1"
    using ordinal_in_year [OF v] by simp_all
  have th: "?n - 3 \<le> ?th" "?th \<le> ?n + 3" by (rule iso_thursday_near)+
  note b = year_start_prev [of ?y] year_start_bounds [of "?y + 1"]
  show "ymd2ord (iso8601_year t) 1 1 \<le> ?th"
    using n th b by (auto simp: iso8601_year_def Let_def)
  show "?th < ymd2ord (iso8601_year t + 1) 1 1"
    using n th b by (auto simp: iso8601_year_def Let_def)
qed

lemma iso8601_week_range:
  assumes v: "valid_datetime t"
  shows "1 \<le> iso8601_week t" "iso8601_week t \<le> 53"
proof -
  let ?d = "iso_thursday t - ymd2ord (iso8601_year t) 1 1"
  have lo: "0 \<le> ?d" using iso_thursday_in_iso_year(1) [OF v] by simp
  have "?d < 366"
    using iso_thursday_in_iso_year(2) [OF v] year_start_bounds(2) [of "iso8601_year t"] by simp
  then have "?d \<le> 365" by simp
  then have "?d div 7 \<le> 365 div 7" by (rule zdiv_mono1) simp
  then show "iso8601_week t \<le> 53" by (simp add: iso8601_week_def)
  from lo have "0 \<le> ?d div 7" by (simp add: pos_imp_zdiv_nonneg_iff)
  then show "1 \<le> iso8601_week t" by (simp add: iso8601_week_def)
qed

lemma days_before_year_mono: "y1 \<le> y2 \<Longrightarrow> days_before_year y1 \<le> days_before_year y2"
proof (induction y2 rule: int_ge_induct)
  case base
  show ?case by simp
next
  case (step i)
  have "days_before_year i \<le> days_before_year (i + 1)"
    by (simp add: days_before_year_step)
  with step.IH show ?case by simp
qed

lemma year_start_mono: "y1 \<le> y2 \<Longrightarrow> ymd2ord y1 1 1 \<le> ymd2ord y2 1 1"
  by (simp add: ymd2ord_first days_before_year_mono)

lemma year_start_strict_mono: "y1 < y2 \<Longrightarrow> ymd2ord y1 1 1 < ymd2ord y2 1 1"
proof -
  assume "y1 < y2"
  then have "ymd2ord (y1 + 1) 1 1 \<le> ymd2ord y2 1 1" by (intro year_start_mono) simp
  moreover have "ymd2ord y1 1 1 < ymd2ord (y1 + 1) 1 1" by (simp add: year_start_step)
  ultimately show ?thesis by simp
qed

lemma iso_thursday_alt: "iso_thursday t = 7 * ((toordinal t + 6) div 7) - 3"
proof -
  have "toordinal t + 6 = 7 * ((toordinal t + 6) div 7) + (toordinal t + 6) mod 7"
    by simp
  then show ?thesis unfolding iso_thursday_def Let_def by linarith
qed

lemma iso_thursday_mono:
  "toordinal t1 \<le> toordinal t2 \<Longrightarrow> iso_thursday t1 \<le> iso_thursday t2"
proof -
  assume "toordinal t1 \<le> toordinal t2"
  then have "toordinal t1 + 6 \<le> toordinal t2 + 6" by simp
  then have "(toordinal t1 + 6) div 7 \<le> (toordinal t2 + 6) div 7" by (rule zdiv_mono1) simp
  then show ?thesis by (simp add: iso_thursday_alt)
qed

lemma iso8601_mono:
  assumes v: "valid_datetime t1" "valid_datetime t2"
    and le: "toordinal t1 \<le> toordinal t2"
  shows "iso8601_year t1 < iso8601_year t2
       \<or> (iso8601_year t1 = iso8601_year t2 \<and> iso8601_week t1 \<le> iso8601_week t2)"
proof -
  have th: "iso_thursday t1 \<le> iso_thursday t2" using le by (rule iso_thursday_mono)
  note a = iso_thursday_in_iso_year [OF v(1)] and b = iso_thursday_in_iso_year [OF v(2)]
  have "iso8601_year t1 \<le> iso8601_year t2"
  proof (rule ccontr)
    assume "\<not> iso8601_year t1 \<le> iso8601_year t2"
    then have "iso8601_year t2 + 1 \<le> iso8601_year t1" by simp
    then have "ymd2ord (iso8601_year t2 + 1) 1 1 \<le> ymd2ord (iso8601_year t1) 1 1"
      by (rule year_start_mono)
    with a(1) b(2) th show False by simp
  qed
  moreover have "iso8601_week t1 \<le> iso8601_week t2" if "iso8601_year t1 = iso8601_year t2"
  proof -
    have "iso_thursday t1 - ymd2ord (iso8601_year t1) 1 1
            \<le> iso_thursday t2 - ymd2ord (iso8601_year t2) 1 1"
      using th that by simp
    then have "(iso_thursday t1 - ymd2ord (iso8601_year t1) 1 1) div 7
            \<le> (iso_thursday t2 - ymd2ord (iso8601_year t2) 1 1) div 7"
      by (rule zdiv_mono1) simp
    then show ?thesis by (simp add: iso8601_week_def)
  qed
  ultimately show ?thesis by fastforce
qed

lemma month_end:
  assumes "1 \<le> m" "m \<le> 11"
  shows "days_before_month y m + days_in_month y m = days_before_month y (m + 1)"
proof -
  from assms have "m = 1 \<or> m = 2 \<or> m = 3 \<or> m = 4 \<or> m = 5 \<or> m = 6 \<or> m = 7 \<or> m = 8
      \<or> m = 9 \<or> m = 10 \<or> m = 11" by arith
  then show ?thesis
    by (elim disjE) (simp_all add: days_before_month_def days_in_month_def)
qed

lemma days_in_month_pos: "0 < days_in_month y m"
  by (simp add: days_in_month_def)

lemma days_before_month_mono:
  assumes "1 \<le> m1" "m1 \<le> m2" "m2 \<le> 12"
  shows "days_before_month y m1 \<le> days_before_month y m2"
  using assms(2,1,3)
proof (induction m2 rule: int_ge_induct)
  case base
  show ?case by simp
next
  case (step i)
  then have "days_before_month y i + days_in_month y i = days_before_month y (i + 1)"
    by (intro month_end) simp_all
  with step days_in_month_pos [of y i] show ?case by simp
qed

lemma toordinal_mono:
  assumes v: "valid_datetime t1" "valid_datetime t2" and le: "dt_le t1 t2"
  shows "toordinal t1 \<le> toordinal t2"
proof -
  from le have "year t1 < year t2
      \<or> (year t1 = year t2 \<and> month t1 < month t2)
      \<or> (year t1 = year t2 \<and> month t1 = month t2 \<and> day t1 \<le> day t2)"
    by (auto simp: dt_le_def dt_key_def less_eq_prod_def)
  then consider (y) "year t1 < year t2"
    | (m) "year t1 = year t2" "month t1 < month t2"
    | (d) "year t1 = year t2" "month t1 = month t2" "day t1 \<le> day t2" by blast
  then show ?thesis
  proof cases
    case y
    then have "ymd2ord (year t1 + 1) 1 1 \<le> ymd2ord (year t2) 1 1"
      by (intro year_start_mono) simp
    with ordinal_in_year(2) [OF v(1)] ordinal_in_year(1) [OF v(2)] show ?thesis by simp
  next
    case m
    from v have r: "1 \<le> month t1" "month t2 \<le> 12" "day t1 \<le> days_in_month (year t1) (month t1)"
      "1 \<le> day t2"
      by (simp_all add: valid_datetime_def)
    with m have "days_before_month (year t1) (month t1) + days_in_month (year t1) (month t1)
        = days_before_month (year t1) (month t1 + 1)"
      by (intro month_end) simp_all
    moreover have "days_before_month (year t1) (month t1 + 1)
        \<le> days_before_month (year t1) (month t2)"
      using m r by (intro days_before_month_mono) simp_all
    ultimately show ?thesis
      using m r by (simp add: toordinal_def ymd2ord_def)
  next
    case d
    then show ?thesis by (simp add: toordinal_def ymd2ord_def)
  qed
qed

lemma year_start_1000: "ymd2ord 1000 1 1 = 364878"
  by (simp add: ymd2ord_def days_before_year_def days_before_month_def)

lemma year_start_10000: "ymd2ord 10000 1 1 = 3652060"
  by (simp add: ymd2ord_def days_before_year_def days_before_month_def)

lemma iso8601_year_near:
  "year t - 1 \<le> iso8601_year t" "iso8601_year t \<le> year t + 1"
  by (simp_all add: iso8601_year_def Let_def)

lemma iso8601_year_four_digits:
  assumes v: "valid_datetime t" and y: "1000 \<le> year t"
  shows "1000 \<le> iso8601_year t" and "iso8601_year t \<le> 9999"
proof -
  have n: "ymd2ord (year t) 1 1 \<le> toordinal t" "toordinal t < ymd2ord (year t + 1) 1 1"
    using ordinal_in_year [OF v] by simp_all
  from v have y9: "year t \<le> 9999" by (simp add: valid_datetime_def)
  show "1000 \<le> iso8601_year t"
  proof (cases "year t = 1000")
    case True
    with n have "364878 \<le> toordinal t" by (simp add: year_start_1000)
    then have "364884 \<le> toordinal t + 6" by simp
    then have "(364884::int) div 7 \<le> (toordinal t + 6) div 7" by (rule zdiv_mono1) simp
    then have "364878 \<le> iso_thursday t" by (simp add: iso_thursday_alt)
    with True show ?thesis by (simp add: iso8601_year_def Let_def year_start_1000)
  next
    case False
    with y iso8601_year_near(1) [of t] show ?thesis by simp
  qed
  show "iso8601_year t \<le> 9999"
  proof (cases "year t = 9999")
    case True
    with n have "toordinal t + 6 \<le> 3652065" by (simp add: year_start_10000)
    then have "(toordinal t + 6) div 7 \<le> (3652065::int) div 7" by (rule zdiv_mono1) simp
    then have "iso_thursday t < 3652060" by (simp add: iso_thursday_alt)
    with True show ?thesis by (simp add: iso8601_year_def Let_def year_start_10000)
  next
    case False
    with y9 iso8601_year_near(2) [of t] show ?thesis by simp
  qed
qed

subsection \<open>Decimal strings and their order\<close>

lemma of_char_digit_char: "n < 10 \<Longrightarrow> of_char (digit_char n) = 48 + n"
  by (simp add: digit_char_def)

lemma digit_char_less_iff:
  assumes "a < 10" "b < 10"
  shows "digit_char a < digit_char b \<longleftrightarrow> a < b"
  using assms by (simp add: less_char_def of_char_digit_char)

lemma digit_char_eq_iff:
  assumes "a < 10" "b < 10"
  shows "digit_char a = digit_char b \<longleftrightarrow> a = b"
proof
  assume "digit_char a = digit_char b"
  then have "(of_char (digit_char a) :: nat) = of_char (digit_char b)" by simp
  then show "a = b" using assms by (simp add: of_char_digit_char)
qed simp

lemma lex_append_less:
  fixes u v :: "'a::linorder list"
  assumes "length u = length v"
  shows "u @ x < v @ y \<longleftrightarrow> u < v \<or> (u = v \<and> x < y)"
  using assms by (induction u v rule: list_induct2) auto

lemma lex_append_le:
  fixes u v :: "'a::linorder list"
  assumes "length u = length v"
  shows "u @ x \<le> v @ y \<longleftrightarrow> u < v \<or> (u = v \<and> x \<le> y)"
  using assms by (induction u v rule: list_induct2) auto

lemma str_nat_small: "n < 10 \<Longrightarrow> str_nat n = [digit_char n]"
  by (simp add: str_nat.simps)

lemma str_nat_large: "10 \<le> n \<Longrightarrow> str_nat n = str_nat (n div 10) @ [digit_char (n mod 10)]"
  by (subst str_nat.simps) simp

lemma length_str_nat_1 [simp]: "n < 10 \<Longrightarrow> length (str_nat n) = 1"
  by (simp add: str_nat_small)

lemma length_str_nat_ge_2: "10 \<le> n \<Longrightarrow> 2 \<le> length (str_nat n)"
proof -
  assume n: "10 \<le> n"
  have "str_nat (n div 10) \<noteq> []" by (subst str_nat.simps) simp
  then have "1 \<le> length (str_nat (n div 10))" by (cases "str_nat (n div 10)") simp_all
  then show ?thesis using n by (simp add: str_nat_large)
qed

lemma lex10:
  fixes n m :: nat
  shows "n < m \<longleftrightarrow> n div 10 < m div 10 \<or> (n div 10 = m div 10 \<and> n mod 10 < m mod 10)"
    and "n = m \<longleftrightarrow> n div 10 = m div 10 \<and> n mod 10 = m mod 10"
    and "n \<le> m \<longleftrightarrow> n div 10 < m div 10 \<or> (n div 10 = m div 10 \<and> n mod 10 \<le> m mod 10)"
proof -
  define qn rn qm rm where "qn = n div 10" and "rn = n mod 10" and "qm = m div 10"
    and "rm = m mod 10"
  have n: "n = 10 * qn + rn" and m: "m = 10 * qm + rm" by (simp_all add: qn_def rn_def qm_def rm_def)
  have r: "rn < 10" "rm < 10" by (simp_all add: rn_def rm_def)
  show "n < m \<longleftrightarrow> qn < qm \<or> (qn = qm \<and> rn < rm)"
    unfolding n m using r by linarith
  show "n = m \<longleftrightarrow> qn = qm \<and> rn = rm"
    unfolding n m using r by arith
  show "n \<le> m \<longleftrightarrow> qn < qm \<or> (qn = qm \<and> rn \<le> rm)"
    unfolding n m using r by linarith
qed

lemma digit_char_0: "digit_char 0 = CHR ''0''"
  by code_simp

lemma str_nat_order:
  "length (str_nat n) = length (str_nat m) \<Longrightarrow>
     (str_nat n < str_nat m \<longleftrightarrow> n < m) \<and> (str_nat n = str_nat m \<longleftrightarrow> n = m)"
proof (induction n arbitrary: m rule: str_nat.induct)
  case (1 n)
  show ?case
  proof (cases "n < 10")
    case True
    have m: "m < 10"
    proof (rule ccontr)
      assume "\<not> m < 10"
      then have "2 \<le> length (str_nat m)" by (intro length_str_nat_ge_2) simp
      with "1.prems" True show False by simp
    qed
    with True show ?thesis
      by (simp add: str_nat_small digit_char_less_iff digit_char_eq_iff)
  next
    case False
    then have n: "10 \<le> n" by simp
    have m: "10 \<le> m"
    proof (rule ccontr)
      assume "\<not> 10 \<le> m"
      then have "length (str_nat m) = 1" by simp
      with "1.prems" length_str_nat_ge_2 [OF n] show False by simp
    qed
    have len: "length (str_nat (n div 10)) = length (str_nat (m div 10))"
      using "1.prems" n m by (simp add: str_nat_large)
    note IH = "1.IH" [OF False len]
    have dn: "n mod 10 < 10" and dm: "m mod 10 < 10" by simp_all
    have lt: "str_nat n < str_nat m \<longleftrightarrow>
        n div 10 < m div 10 \<or> (n div 10 = m div 10 \<and> n mod 10 < m mod 10)"
      unfolding str_nat_large [OF n] str_nat_large [OF m] lex_append_less [OF len]
      using IH by (simp add: digit_char_less_iff [OF dn dm])
    have eq: "str_nat n = str_nat m \<longleftrightarrow> n div 10 = m div 10 \<and> n mod 10 = m mod 10"
      unfolding str_nat_large [OF n] str_nat_large [OF m]
      using IH len by (simp add: digit_char_eq_iff [OF dn dm])
    note a1 = lex10(1) [of n m] and a2 = lex10(2) [of n m]
    show ?thesis using lt eq a1 a2 by blast
  qed
qed

lemma length_str_nat_4:
  assumes "1000 \<le> n" "n < 10000"
  shows "length (str_nat n) = 4"
proof -
  have 1: "n div 10 div 10 div 10 < 10" using assms by simp
  have 2: "10 \<le> n div 10 div 10" using assms by simp
  have 3: "10 \<le> n div 10" using assms by simp
  have 4: "10 \<le> n" using assms by simp
  show ?thesis
    by (simp add: str_nat_large [OF 4] str_nat_large [OF 3] str_nat_large [OF 2]
        str_nat_small [OF 1])
qed

lemma length_str_nat_2:
  assumes "10 \<le> n" "n < 100"
  shows "length (str_nat n) = 2"
proof -
  have 1: "n div 10 < 10" using assms by simp
  show ?thesis by (simp add: str_nat_large [OF assms(1)] str_nat_small [OF 1])
qed

lemma fmt_02d_digits:
  assumes "0 \<le> i" "i < 100"
  shows "fmt_02d i = [digit_char (nat i div 10), digit_char (nat i mod 10)]"
proof (cases "i < 10")
  case True
  with assms have "nat i < 10" by simp
  then have "str_nat (nat i) = [digit_char (nat i)]" by (rule str_nat_small)
  moreover have "CHR ''0'' = digit_char 0" by (simp only: digit_char_0)
  ultimately show ?thesis using True assms by (simp add: fmt_02d_def str_int_def)
next
  case False
  with assms have n: "10 \<le> nat i" "nat i div 10 < 10" by simp_all
  show ?thesis
    using False assms by (simp add: fmt_02d_def str_int_def str_nat_large [OF n(1)]
        str_nat_small [OF n(2)])
qed

lemma fmt_02d_le_iff:
  assumes "0 \<le> a" "a < 100" "0 \<le> b" "b < 100"
  shows "fmt_02d a \<le> fmt_02d b \<longleftrightarrow> a \<le> b"
proof -
  let ?a = "nat a" and ?b = "nat b"
  have d: "?a div 10 < 10" "?a mod 10 < 10" "?b div 10 < 10" "?b mod 10 < 10"
    using assms by simp_all
  have "fmt_02d a \<le> fmt_02d b \<longleftrightarrow>
      ?a div 10 < ?b div 10 \<or> (?a div 10 = ?b div 10 \<and> ?a mod 10 \<le> ?b mod 10)"
    using d by (auto simp: fmt_02d_digits assms digit_char_less_iff digit_char_eq_iff
        le_less [of "digit_char (?a mod 10)"])
  also have "\<dots> \<longleftrightarrow> ?a \<le> ?b" by (simp only: lex10(3) [of ?a ?b])
  also have "\<dots> \<longleftrightarrow> a \<le> b" using assms by (simp add: nat_le_eq_zle)
  finally show ?thesis .
qed

lemma str_int_four_digits:
  assumes "1000 \<le> a" "a \<le> 9999" "1000 \<le> b" "b \<le> 9999"
  shows "length (str_int a) = length (str_int b)"
    and "str_int a < str_int b \<longleftrightarrow> a < b"
    and "str_int a = str_int b \<longleftrightarrow> a = b"
proof -
  have a: "str_int a = str_nat (nat a)" "1000 \<le> nat a" "nat a < 10000"
    using assms by (simp_all add: str_int_def)
  have b: "str_int b = str_nat (nat b)" "1000 \<le> nat b" "nat b < 10000"
    using assms by (simp_all add: str_int_def)
  have len: "length (str_nat (nat a)) = length (str_nat (nat b))"
    using length_str_nat_4 [OF a(2,3)] length_str_nat_4 [OF b(2,3)] by simp
  then show "length (str_int a) = length (str_int b)" by (simp add: a b)
  from str_nat_order [OF len] show "str_int a < str_int b \<longleftrightarrow> a < b"
    using assms by (simp add: a b)
  from str_nat_order [OF len] show "str_int a = str_int b \<longleftrightarrow> a = b"
    using assms by (auto simp: a b)
qed

lemma label_mono:
  assumes y: "1000 \<le> y1" "y1 \<le> 9999" "1000 \<le> y2" "y2 \<le> 9999"
    and w: "0 \<le> w1" "w1 < 100" "0 \<le> w2" "w2 < 100"
    and le: "y1 < y2 \<or> (y1 = y2 \<and> w1 \<le> w2)"
  shows "str_int y1 @ sep @ fmt_02d w1 \<le> str_int y2 @ sep @ fmt_02d w2"
proof -
  note s = str_int_four_digits [OF y]
  have "sep @ fmt_02d w1 \<le> sep @ fmt_02d w2 \<longleftrightarrow> w1 \<le> w2"
    by (simp add: lex_append_le fmt_02d_le_iff [OF w])
  then show ?thesis
    using le by (auto simp: lex_append_le [OF s(1)] s(2))
qed

subsection \<open>Bucket labels\<close>

lemma check_datetime_valid: "check_datetime t = Some t' \<Longrightarrow> t' = t \<and> valid_datetime t"
  by (simp add: check_datetime_def split: if_splits)

lemma strptime_ymd_valid: "strptime_ymd s = Some t \<Longrightarrow> valid_datetime t"
  by (auto simp: strptime_ymd_def split: bind_splits prod.splits if_splits
      dest: check_datetime_valid)

lemma strptime_ymd_hms_valid: "strptime_ymd_hms s = Some t \<Longrightarrow> valid_datetime t"
  by (auto simp: strptime_ymd_hms_def split: bind_splits prod.splits if_splits
      dest: check_datetime_valid)

lemma parse_date_valid: "parse_date s = Inr t \<Longrightarrow> valid_datetime t"
  by (auto simp: parse_date_def split: option.splits
      dest: strptime_ymd_valid strptime_ymd_hms_valid)

lemma group_label_weekly:
  assumes "parse_date (date r) = Inr t"
  shows "group_label ''weekly'' r
         = Inr (str_int (iso8601_year t) @ ''-W'' @ fmt_02d (iso8601_week t))"
  using assms isocalendar_iso8601 [OF parse_date_valid [OF assms]]
  by (simp add: group_label_def)

lemma group_label_monthly:
  assumes "parse_date (date r) = Inr t"
  shows "group_label ''monthly'' r = Inr (str_int (year t) @ ''-'' @ fmt_02d (month t))"
  using assms by (simp add: group_label_def)

lemma group_two_same_label:
  assumes "period \<noteq> ''intraday''" "period \<noteq> ''daily''"
    and "group_label period r = Inr l" "group_label period r' = Inr l"
  shows "group_by_period [r, r'] period = Inr [ohlc_rollup l [r, r']]"
proof -
  have "group_rows period [r, r'] [] = Inr [(l, [r, r'])]"
    using assms by simp
  moreover have "combine_groups [(l, [r, r'])] = Inr [ohlc_rollup l [r, r']]"
    using combine_group_eq [of "[r, r']" l] by simp
  ultimately show ?thesis using assms by (simp add: group_by_period_def)
qed

text \<open>
  Claim C4.  For a record whose date parses, the weekly bucket key is the ISO year, then
  \<open>-W\<close>, then the ISO week padded with a zero to two digits, where year and week are those
  of ISO 8601: what \<open>isocalendar\<close> returns is the year that holds the Thursday of the
  record's week and the number of that Thursday among the Thursdays of that year, a number
  from 1 to 53.  Hence a second record of the same ISO year and week has the same key,
  whatever its Gregorian month and year, and the two fall into the same bucket.
\<close>

theorem weekly_bucket_key_is_iso_week:
  assumes r: "parse_date (date r) = Inr t"
  shows "group_label ''weekly'' r
           = Inr (str_int (iso8601_year t) @ ''-W'' @ fmt_02d (iso8601_week t))
       \<and> isocalendar t = (iso8601_year t, iso8601_week t, (toordinal t + 6) mod 7 + 1)
       \<and> ymd2ord (iso8601_year t) 1 1 \<le> iso_thursday t
       \<and> iso_thursday t < ymd2ord (iso8601_year t + 1) 1 1
       \<and> 1 \<le> iso8601_week t \<and> iso8601_week t \<le> 53
       \<and> length (fmt_02d (iso8601_week t)) = 2
       \<and> (\<forall>r' t'. parse_date (date r') = Inr t'
             \<and> iso8601_year t' = iso8601_year t \<and> iso8601_week t' = iso8601_week t \<longrightarrow>
           group_label ''weekly'' r' = group_label ''weekly'' r
           \<and> group_by_period [r, r'] ''weekly''
               = Inr [ohlc_rollup (str_int (iso8601_year t) @ ''-W'' @ fmt_02d (iso8601_week t))
                       [r, r']]
           \<and> (\<forall>rows. r \<in> set rows \<and> r' \<in> set rows \<longrightarrow>
                {r, r'} \<subseteq> set (bucket ''weekly'' rows
                    (str_int (iso8601_year t) @ ''-W'' @ fmt_02d (iso8601_week t)))))"
proof -
  let ?l = "str_int (iso8601_year t) @ ''-W'' @ fmt_02d (iso8601_week t)"
  have v: "valid_datetime t" using r by (rule parse_date_valid)
  have l: "group_label ''weekly'' r = Inr ?l" using r by (rule group_label_weekly)
  have w: "1 \<le> iso8601_week t" "iso8601_week t \<le> 53" by (rule iso8601_week_range [OF v])+
  have len: "length (fmt_02d (iso8601_week t)) = 2"
    using w by (simp add: fmt_02d_digits)
  have same: "group_label ''weekly'' r' = group_label ''weekly'' r
           \<and> group_by_period [r, r'] ''weekly'' = Inr [ohlc_rollup ?l [r, r']]
           \<and> (\<forall>rows. r \<in> set rows \<and> r' \<in> set rows \<longrightarrow>
                {r, r'} \<subseteq> set (bucket ''weekly'' rows ?l))"
    if r': "parse_date (date r') = Inr t'"
      and e: "iso8601_year t' = iso8601_year t" "iso8601_week t' = iso8601_week t"
    for r' t'
  proof -
    have l': "group_label ''weekly'' r' = Inr ?l"
      using group_label_weekly [OF r'] e by simp
    have "group_by_period [r, r'] ''weekly'' = Inr [ohlc_rollup ?l [r, r']]"
      by (rule group_two_same_label [OF _ _ l l']) simp_all
    then show ?thesis using l l' by (simp add: bucket_def)
  qed
  show ?thesis
    using l isocalendar_iso8601 [OF v] iso_thursday_in_iso_year [OF v] w len same
    by blast
qed

theorem weekly_bucket_key_is_iso_week_witness:
  "group_label ''weekly''
     \<lparr>date = ''2024-12-30'', open_price = 10, high_price = 13, low_price = 9, close_price = 12\<rparr>
   = Inr ''2025-W01''
   \<and> group_label ''weekly''
     \<lparr>date = ''2025-01-02'', open_price = 12, high_price = 15, low_price = 11, close_price = 14\<rparr>
   = Inr ''2025-W01''
   \<and> group_by_period
       [\<lparr>date = ''2024-12-30'', open_price = 10, high_price = 13, low_price = 9, close_price = 12\<rparr>,
        \<lparr>date = ''2025-01-02'', open_price = 12, high_price = 15, low_price = 11, close_price = 14\<rparr>]
       ''weekly''
   = Inr [\<lparr>date = ''2025-W01'', open_price = 10, high_price = 15, low_price = 9, close_price = 14\<rparr>]"
proof -
  let ?r = "\<lparr>date = ''2024-12-30'', open_price = 10, high_price = 13, low_price = 9,
              close_price = 12\<rparr>"
  let ?r' = "\<lparr>date = ''2025-01-02'', open_price = 12, high_price = 15, low_price = 11,
              close_price = 14\<rparr>"
  let ?t = "\<lparr>year = 2024, month = 12, day = 30, hour = 0, minute = 0, second = 0\<rparr>"
  let ?t' = "\<lparr>year = 2025, month = 1, day = 2, hour = 0, minute = 0, second = 0\<rparr>"
  have h: "parse_date (date ?r) = Inr ?t" by code_simp
  have h': "parse_date (date ?r') = Inr ?t'" by code_simp
  have y: "iso8601_year ?t' = iso8601_year ?t" by code_simp
  have w: "iso8601_week ?t' = iso8601_week ?t" by code_simp
  have l: "str_int (iso8601_year ?t) @ ''-W'' @ fmt_02d (iso8601_week ?t) = ''2025-W01''"
    by code_simp
  have o: "ohlc_rollup ''2025-W01'' [?r, ?r']
     = \<lparr>date = ''2025-W01'', open_price = 10, high_price = 15, low_price = 9, close_price = 14\<rparr>"
    by (simp add: ohlc_rollup_def)
  from weekly_bucket_key_is_iso_week [OF h]
  have "group_label ''weekly'' ?r = Inr ''2025-W01''"
    and "\<forall>r' t'. parse_date (date r') = Inr t'
             \<and> iso8601_year t' = iso8601_year ?t \<and> iso8601_week t' = iso8601_week ?t \<longrightarrow>
           group_label ''weekly'' r' = group_label ''weekly'' ?r
           \<and> group_by_period [?r, r'] ''weekly'' = Inr [ohlc_rollup ''2025-W01'' [?r, r']]"
    unfolding l by blast+
  with h' y w o show ?thesis by metis
qed

subsection \<open>Order of the aggregated records\<close>

lemma group_by_period_sorted:
  "case group_by_period rows period of
     Inl e \<Rightarrow> e = ValueError \<and> (\<exists>r\<in>set rows. \<not> parses (date r))
   | Inr out \<Rightarrow> sorted (map date out)"
proof (cases "period = ''intraday'' \<or> period = ''daily''")
  case True
  then have "group_by_period rows period = Inr (sort_key date rows)"
    by (auto simp: group_by_period_def)
  then show ?thesis by simp
next
  case False
  then have period: "period \<noteq> ''intraday''" "period \<noteq> ''daily''" by simp_all
  show ?thesis
  proof (cases "\<exists>r\<in>set rows. \<not> parses (date r)")
    case True
    then show ?thesis using group_by_period_fails [OF period True] by simp
  next
    case False
    then have "\<And>r. r \<in> set rows \<Longrightarrow> parses (date r)" by blast
    from group_by_period_grouped [OF period this]
    obtain G where "group_by_period rows period
                 = Inr (sort_key date (map (\<lambda>(l, rs). ohlc_rollup l rs) G))"
      by blast
    then show ?thesis by simp
  qed
qed

lemma label_order:
  assumes period: "period = ''weekly'' \<or> period = ''monthly''"
    and p1: "parse_date (date r1) = Inr t1" and p2: "parse_date (date r2) = Inr t2"
    and le: "dt_le t1 t2" and y: "1000 \<le> year t1"
    and l1: "group_label period r1 = Inr l1" and l2: "group_label period r2 = Inr l2"
  shows "l1 \<le> l2"
proof -
  have v: "valid_datetime t1" "valid_datetime t2"
    using p1 p2 by (auto dest: parse_date_valid)
  from le have yy: "year t1 \<le> year t2"
    by (auto simp: dt_le_def dt_key_def less_eq_prod_def)
  with y have y2: "1000 \<le> year t2" by simp
  from period show ?thesis
  proof
    assume w: "period = ''weekly''"
    have n: "toordinal t1 \<le> toordinal t2" using v le by (rule toordinal_mono)
    have "str_int (iso8601_year t1) @ ''-W'' @ fmt_02d (iso8601_week t1)
        \<le> str_int (iso8601_year t2) @ ''-W'' @ fmt_02d (iso8601_week t2)"
    proof (rule label_mono)
      show "1000 \<le> iso8601_year t1" "iso8601_year t1 \<le> 9999"
        by (rule iso8601_year_four_digits [OF v(1) y])+
      show "1000 \<le> iso8601_year t2" "iso8601_year t2 \<le> 9999"
        by (rule iso8601_year_four_digits [OF v(2) y2])+
      show "0 \<le> iso8601_week t1" "iso8601_week t1 < 100"
        using iso8601_week_range [OF v(1)] by simp_all
      show "0 \<le> iso8601_week t2" "iso8601_week t2 < 100"
        using iso8601_week_range [OF v(2)] by simp_all
      show "iso8601_year t1 < iso8601_year t2
          \<or> (iso8601_year t1 = iso8601_year t2 \<and> iso8601_week t1 \<le> iso8601_week t2)"
        by (rule iso8601_mono [OF v n])
    qed
    then show ?thesis
      using l1 l2 w by (simp add: group_label_weekly [OF p1] group_label_weekly [OF p2])
  next
    assume m: "period = ''monthly''"
    have "str_int (year t1) @ ''-'' @ fmt_02d (month t1)
        \<le> str_int (year t2) @ ''-'' @ fmt_02d (month t2)"
    proof (rule label_mono)
      show "1000 \<le> year t1" "1000 \<le> year t2" using y y2 by simp_all
      show "year t1 \<le> 9999" "year t2 \<le> 9999" using v by (simp_all add: valid_datetime_def)
      show "0 \<le> month t1" "month t1 < 100" "0 \<le> month t2" "month t2 < 100"
        using v by (simp_all add: valid_datetime_def)
      show "year t1 < year t2 \<or> (year t1 = year t2 \<and> month t1 \<le> month t2)"
        using le by (auto simp: dt_le_def dt_key_def less_eq_prod_def)
    qed
    then show ?thesis
      using l1 l2 m by (simp add: group_label_monthly [OF p1] group_label_monthly [OF p2])
  qed
qed

text \<open>
  Claim C7 says that for any two dates in chronological order the weekly and the monthly
  labels are in lexical order.  The labels print the year without padding, so a year below
  1000 has fewer digits: December 999 comes before January 1000, its labels \<open>999-12\<close> and
  \<open>999-W48\<close> come after \<open>1000-01\<close> and \<open>1000-W01\<close>, and the aggregation returns the later
  period first.
\<close>

theorem label_order_counterexample:
  "parse_date ''0999-12-01''
     = Inr \<lparr>year = 999, month = 12, day = 1, hour = 0, minute = 0, second = 0\<rparr>
   \<and> parse_date ''1000-01-01''
     = Inr \<lparr>year = 1000, month = 1, day = 1, hour = 0, minute = 0, second = 0\<rparr>
   \<and> dt_le \<lparr>year = 999, month = 12, day = 1, hour = 0, minute = 0, second = 0\<rparr>
           \<lparr>year = 1000, month = 1, day = 1, hour = 0, minute = 0, second = 0\<rparr>
   \<and> group_label ''monthly''
        \<lparr>date = ''0999-12-01'', open_price = 10, high_price = 12, low_price = 9, close_price = 11\<rparr>
      = Inr ''999-12''
   \<and> group_label ''monthly''
        \<lparr>date = ''1000-01-01'', open_price = 20, high_price = 22, low_price = 19, close_price = 21\<rparr>
      = Inr ''1000-01''
   \<and> \<not> ''999-12'' \<le> ''1000-01''
   \<and> group_label ''weekly''
        \<lparr>date = ''0999-12-01'', open_price = 10, high_price = 12, low_price = 9, close_price = 11\<rparr>
      = Inr ''999-W48''
   \<and> group_label ''weekly''
        \<lparr>date = ''1000-01-01'', open_price = 20, high_price = 22, low_price = 19, close_price = 21\<rparr>
      = Inr ''1000-W01''
   \<and> \<not> ''999-W48'' \<le> ''1000-W01''
   \<and> group_by_period
        [\<lparr>date = ''0999-12-01'', open_price = 10, high_price = 12, low_price = 9, close_price = 11\<rparr>,
         \<lparr>date = ''1000-01-01'', open_price = 20, high_price = 22, low_price = 19, close_price = 21\<rparr>]
        ''monthly''
      = Inr [\<lparr>date = ''1000-01'', open_price = 20, high_price = 22, low_price = 19, close_price = 21\<rparr>,
             \<lparr>date = ''999-12'', open_price = 10, high_price = 12, low_price = 9, close_price = 11\<rparr>]"
  by code_simp

text \<open>
  Claim C7 as amended.  For every list of records and every resolution the aggregation
  returns its records sorted ascending by label, or raises \<open>ValueError\<close> on a date that does
  not parse.  For the weekly and the monthly label, two dates in chronological order whose
  years have four digits (the earlier year is at least 1000) have their labels in lexical
  order.
\<close>

theorem aggregate_sorted_by_label:
  "(case group_by_period rows period of
      Inl e \<Rightarrow> e = ValueError \<and> (\<exists>r\<in>set rows. \<not> parses (date r))
    | Inr out \<Rightarrow> sorted (map date out))
   \<and> ((period = ''weekly'' \<or> period = ''monthly'')
        \<and> parse_date (date r1) = Inr t1 \<and> parse_date (date r2) = Inr t2
        \<and> dt_le t1 t2 \<and> 1000 \<le> year t1
        \<and> group_label period r1 = Inr l1 \<and> group_label period r2 = Inr l2
       \<longrightarrow> l1 \<le> l2)"
  using group_by_period_sorted [of rows period]
    label_order [of period r1 t1 r2 t2 l1 l2]
  by blast

theorem aggregate_sorted_by_label_witness:
  "group_by_period
     [\<lparr>date = ''2025-01-02'', open_price = 12, high_price = 15, low_price = 11, close_price = 14\<rparr>,
      \<lparr>date = ''2024-12-20'', open_price = 10, high_price = 13, low_price = 9, close_price = 12\<rparr>]
     ''weekly''
   = Inr [\<lparr>date = ''2024-W51'', open_price = 10, high_price = 13, low_price = 9, close_price = 12\<rparr>,
          \<lparr>date = ''2025-W01'', open_price = 12, high_price = 15, low_price = 11, close_price = 14\<rparr>]
   \<and> sorted [''2024-W51'', ''2025-W01'']
   \<and> ''2024-W51'' \<le> ''2025-W01''"
proof -
  let ?r1 = "\<lparr>date = ''2024-12-20'', open_price = 10, high_price = 13, low_price = 9,
               close_price = 12\<rparr>"
  let ?r2 = "\<lparr>date = ''2025-01-02'', open_price = 12, high_price = 15, low_price = 11,
               close_price = 14\<rparr>"
  let ?t1 = "\<lparr>year = 2024, month = 12, day = 20, hour = 0, minute = 0, second = 0\<rparr>"
  let ?t2 = "\<lparr>year = 2025, month = 1, day = 2, hour = 0, minute = 0, second = 0\<rparr>"
  have e: "group_by_period [?r2, ?r1] ''weekly''
   = Inr [\<lparr>date = ''2024-W51'', open_price = 10, high_price = 13, low_price = 9, close_price = 12\<rparr>,
          \<lparr>date = ''2025-W01'', open_price = 12, high_price = 15, low_price = 11, close_price = 14\<rparr>]"
    by code_simp
  have h: "parse_date (date ?r1) = Inr ?t1" "parse_date (date ?r2) = Inr ?t2"
    "dt_le ?t1 ?t2" "1000 \<le> year ?t1"
    "group_label ''weekly'' ?r1 = Inr ''2024-W51''" "group_label ''weekly'' ?r2 = Inr ''2025-W01''"
    by code_simp+
  from aggregate_sorted_by_label [of "[?r2, ?r1]" "''weekly''" ?r1 ?t1 ?r2 ?t2
      "''2024-W51''" "''2025-W01''"]
  have "sorted [''2024-W51'', ''2025-W01'']" and "''2024-W51'' \<le> ''2025-W01''"
    using h unfolding e by simp_all
  with e show ?thesis by simp
qed

subsection \<open>Records on the end date\<close>

lemma filter_by_date_result:
  assumes "parse_date start_date = Inr start_dt" "parse_date end_date = Inr end_dt"
    and "dt_le start_dt end_dt"
    and "\<And>r. r \<in> set rows \<Longrightarrow> parses (date r)"
    and "filter (in_window start_dt end_dt) rows \<noteq> []"
  shows "filter_by_date rows start_date end_date
         = Inr (sort_key date (filter (in_window start_dt end_dt) rows))"
proof -
  have "\<not> dt_less end_dt start_dt"
    using assms(3) by (auto simp: dt_le_def dt_less_def)
  then show ?thesis
    using assms(1,2,5) filter_rows_all_parse [OF assms(4), of rows start_dt end_dt]
    by (simp add: filter_by_date_def)
qed

text \<open>
  Claim C2 says that a record dated on \<open>end_date\<close> is kept at any time of day.  The bounds
  parse to midnight and the records are compared as date-times, so of the records of
  \<open>end_date\<close> only one at midnight passes: a record of 10:00 on the end date is dropped,
  alone it makes the filter raise \<open>NoDataAvailableError\<close>, while a record that carries the
  end date without a time is kept.
\<close>

theorem filter_drops_end_date_with_time:
  "filter_by_date
     [\<lparr>date = ''2024-01-31 10:00:00'', open_price = 12, high_price = 15, low_price = 11, close_price = 14\<rparr>,
      \<lparr>date = ''2024-01-30 16:00:00'', open_price = 10, high_price = 13, low_price = 9, close_price = 12\<rparr>]
     ''2024-01-30'' ''2024-01-31''
   = Inr [\<lparr>date = ''2024-01-30 16:00:00'', open_price = 10, high_price = 13, low_price = 9, close_price = 12\<rparr>]
   \<and> filter_by_date
     [\<lparr>date = ''2024-01-31 10:00:00'', open_price = 12, high_price = 15, low_price = 11, close_price = 14\<rparr>]
     ''2024-01-31'' ''2024-01-31''
   = Inl (NoDataAvailableError (no_data_in_range_message ''2024-01-31'' ''2024-01-31''))
   \<and> filter_by_date
     [\<lparr>date = ''2024-01-31'', open_price = 12, high_price = 15, low_price = 11, close_price = 14\<rparr>]
     ''2024-01-31'' ''2024-01-31''
   = Inr [\<lparr>date = ''2024-01-31'', open_price = 12, high_price = 15, low_price = 11, close_price = 14\<rparr>]"
  by code_simp

subsection \<open>Zero-padded dates\<close>

lemma length_pad_digits [simp]: "length (pad_digits k n) = k"
  by (induction k arbitrary: n) simp_all

lemma pad_digits_order:
  "n < 10 ^ k \<Longrightarrow> m < 10 ^ k \<Longrightarrow>
     (pad_digits k n < pad_digits k m \<longleftrightarrow> n < m) \<and> (pad_digits k n = pad_digits k m \<longleftrightarrow> n = m)"
proof (induction k arbitrary: n m)
  case 0
  then show ?case by simp
next
  case (Suc k)
  from Suc.prems have q: "n div 10 < 10 ^ k" "m div 10 < 10 ^ k" by simp_all
  note IH = Suc.IH [OF q]
  have d: "n mod 10 < 10" "m mod 10 < 10" by simp_all
  have len: "length (pad_digits k (n div 10)) = length (pad_digits k (m div 10))" by simp
  have "pad_digits (Suc k) n < pad_digits (Suc k) m \<longleftrightarrow>
      n div 10 < m div 10 \<or> (n div 10 = m div 10 \<and> n mod 10 < m mod 10)"
    using IH by (simp add: lex_append_less [OF len] digit_char_less_iff [OF d])
  moreover have "pad_digits (Suc k) n = pad_digits (Suc k) m \<longleftrightarrow>
      n div 10 = m div 10 \<and> n mod 10 = m mod 10"
    using IH by (simp add: digit_char_eq_iff [OF d])
  ultimately show ?case using lex10(1,2) [of n m] by blast
qed

lemma pad_digits_int:
  assumes "0 \<le> a" "a < 10 ^ k" "0 \<le> b" "b < 10 ^ k"
  shows "pad_digits k (nat a) < pad_digits k (nat b) \<longleftrightarrow> a < b"
    and "pad_digits k (nat a) = pad_digits k (nat b) \<longleftrightarrow> a = b"
proof -
  have "nat a < 10 ^ k" "nat b < 10 ^ k"
    using assms by (simp_all add: nat_less_iff)
  from pad_digits_order [OF this]
  show "pad_digits k (nat a) < pad_digits k (nat b) \<longleftrightarrow> a < b"
    and "pad_digits k (nat a) = pad_digits k (nat b) \<longleftrightarrow> a = b"
    using assms by auto
qed

lemma days_in_month_le: "days_in_month y m \<le> 31"
  by (simp add: days_in_month_def)

lemma isoformat_date_order:
  assumes "valid_datetime a" "valid_datetime b"
  shows "isoformat_date a < isoformat_date b \<longleftrightarrow>
           year a < year b \<or> (year a = year b \<and>
             (month a < month b \<or> (month a = month b \<and> day a < day b)))"
    and "isoformat_date a = isoformat_date b \<longleftrightarrow>
           year a = year b \<and> month a = month b \<and> day a = day b"
proof -
  from assms have r: "0 \<le> year a" "year a < 10 ^ 4" "0 \<le> year b" "year b < 10 ^ 4"
    "0 \<le> month a" "month a < 10 ^ 2" "0 \<le> month b" "month b < 10 ^ 2"
    "0 \<le> day a" "0 \<le> day b"
    by (simp_all add: valid_datetime_def)
  from assms days_in_month_le [of "year a" "month a"] days_in_month_le [of "year b" "month b"]
  have d: "day a < 10 ^ 2" "day b < 10 ^ 2"
    by (simp_all add: valid_datetime_def)
  note y = pad_digits_int [OF r(1-4)]
  note m = pad_digits_int [OF r(5-8)]
  note dd = pad_digits_int [OF r(9) d(1) r(10) d(2)]
  show "isoformat_date a < isoformat_date b \<longleftrightarrow>
           year a < year b \<or> (year a = year b \<and>
             (month a < month b \<or> (month a = month b \<and> day a < day b)))"
    unfolding isoformat_date_def
    by (simp add: lex_append_less y m dd)
  show "isoformat_date a = isoformat_date b \<longleftrightarrow>
           year a = year b \<and> month a = month b \<and> day a = day b"
    unfolding isoformat_date_def
    by (simp add: y m dd)
qed

lemma isoformat_time_order:
  assumes "valid_datetime a" "valid_datetime b"
  shows "isoformat_time a \<le> isoformat_time b \<longleftrightarrow>
           hour a < hour b \<or> (hour a = hour b \<and>
             (minute a < minute b \<or> (minute a = minute b \<and> second a \<le> second b)))"
proof -
  from assms have r: "0 \<le> hour a" "hour a < 10 ^ 2" "0 \<le> hour b" "hour b < 10 ^ 2"
    "0 \<le> minute a" "minute a < 10 ^ 2" "0 \<le> minute b" "minute b < 10 ^ 2"
    "0 \<le> second a" "second a < 10 ^ 2" "0 \<le> second b" "second b < 10 ^ 2"
    by (simp_all add: valid_datetime_def)
  note h = pad_digits_int [OF r(1-4)]
  note m = pad_digits_int [OF r(5-8)]
  note s = pad_digits_int [OF r(9-12)]
  have "pad_digits 2 (nat (second a)) \<le> pad_digits 2 (nat (second b)) \<longleftrightarrow> second a \<le> second b"
    using s by (auto simp: le_less)
  then show ?thesis
    unfolding isoformat_time_def
    by (simp add: lex_append_le lex_append_less h m)
qed

lemma length_isoformat_date [simp]: "length (isoformat_date t) = 10"
  by (simp add: isoformat_date_def)

lemma dt_le_iff:
  "dt_le a b \<longleftrightarrow>
     year a < year b \<or> (year a = year b \<and>
       (month a < month b \<or> (month a = month b \<and>
         (day a < day b \<or> (day a = day b \<and>
           (hour a < hour b \<or> (hour a = hour b \<and>
             (minute a < minute b \<or> (minute a = minute b \<and> second a \<le> second b)))))))))"
  by (auto simp: dt_le_def dt_key_def less_eq_prod_def)

lemma zero_padded_order:
  assumes a: "zero_padded a" and b: "zero_padded b" and le: "a \<le> b"
  shows "dt_le (projr (parse_date a)) (projr (parse_date b))"
proof -
  from a obtain ta where ta: "parse_date a = Inr ta"
    and fa: "(a = isoformat_date ta \<and> hour ta = 0 \<and> minute ta = 0 \<and> second ta = 0)
             \<or> a = isoformat_date ta @ '' '' @ isoformat_time ta"
    by (auto simp: zero_padded_def split: sum.splits)
  from b obtain tb where tb: "parse_date b = Inr tb"
    and fb: "(b = isoformat_date tb \<and> hour tb = 0 \<and> minute tb = 0 \<and> second tb = 0)
             \<or> b = isoformat_date tb @ '' '' @ isoformat_time tb"
    by (auto simp: zero_padded_def split: sum.splits)
  have v: "valid_datetime ta" "valid_datetime tb"
    using ta tb by (auto dest: parse_date_valid)
  note d = isoformat_date_order [OF v]
  note t = isoformat_time_order [OF v]
  have nn: "0 \<le> hour tb" "0 \<le> minute tb" "0 \<le> second tb"
    using v by (simp_all add: valid_datetime_def)
  have len: "length (isoformat_date ta) = length (isoformat_date tb)" by simp
  have "dt_le ta tb"
  proof -
    consider (dd) "a = isoformat_date ta" "hour ta = 0" "minute ta = 0" "second ta = 0"
        "b = isoformat_date tb" "hour tb = 0" "minute tb = 0" "second tb = 0"
      | (dt) "a = isoformat_date ta" "hour ta = 0" "minute ta = 0" "second ta = 0"
        "b = isoformat_date tb @ '' '' @ isoformat_time tb"
      | (td) "a = isoformat_date ta @ '' '' @ isoformat_time ta" "b = isoformat_date tb"
      | (tt) "a = isoformat_date ta @ '' '' @ isoformat_time ta"
        "b = isoformat_date tb @ '' '' @ isoformat_time tb"
      using fa fb by blast
    then show ?thesis
    proof cases
      case dd
      with le have "isoformat_date ta < isoformat_date tb \<or> isoformat_date ta = isoformat_date tb"
        by (simp add: le_less)
      with dd show ?thesis unfolding d dt_le_iff by auto
    next
      case dt
      with le have "isoformat_date ta @ [] \<le> isoformat_date tb @ ('' '' @ isoformat_time tb)"
        by simp
      then have "isoformat_date ta < isoformat_date tb \<or> isoformat_date ta = isoformat_date tb"
        unfolding lex_append_le [OF len] by blast
      with dt nn show ?thesis unfolding d dt_le_iff by auto
    next
      case td
      with le have "isoformat_date ta @ ('' '' @ isoformat_time ta) \<le> isoformat_date tb @ []"
        by simp
      then have "isoformat_date ta < isoformat_date tb"
        unfolding lex_append_le [OF len] by simp
      then show ?thesis unfolding d dt_le_iff by auto
    next
      case tt
      with le have "isoformat_date ta < isoformat_date tb
          \<or> (isoformat_date ta = isoformat_date tb \<and> isoformat_time ta \<le> isoformat_time tb)"
        by (simp add: lex_append_le [OF len])
      then show ?thesis unfolding d t dt_le_iff by auto
    qed
  qed
  then show ?thesis by (simp add: ta tb)
qed

subsection \<open>The combination rule\<close>

lemma sort_key_nonempty: "rs \<noteq> [] \<Longrightarrow> sort_key f rs \<noteq> []"
  by (metis length_sort length_0_conv)

lemma ohlc_rollup_fields:
  assumes "rs \<noteq> []"
  shows "let members = sort_key date rs in
           members \<noteq> []
         \<and> open_price (ohlc_rollup l rs) = open_price (hd members)
         \<and> close_price (ohlc_rollup l rs) = close_price (last members)
         \<and> high_price (ohlc_rollup l rs) = Max (high_price ` set members)
         \<and> low_price (ohlc_rollup l rs) = Min (low_price ` set members)"
  using sort_key_nonempty [OF assms, of date] by (simp add: ohlc_rollup_def Let_def)

lemma sorted_hd_min:
  assumes "sorted (map f s)" "a \<in> set s"
  shows "f (hd s) \<le> f a"
  using assms by (cases s) auto

lemma sorted_last_max:
  assumes "sorted (map f s)" "a \<in> set s"
  shows "f a \<le> f (last s)"
  using assms
proof (induction s)
  case Nil
  then show ?case by simp
next
  case (Cons x s)
  show ?case
  proof (cases "s = []")
    case True
    with Cons.prems show ?thesis by simp
  next
    case False
    then have l: "last s \<in> set s" by simp
    from Cons.prems(1) have s: "sorted (map f s)" and x: "\<And>b. b \<in> set s \<Longrightarrow> f x \<le> f b"
      by auto
    show ?thesis
    proof (cases "a = x")
      case True
      with x [OF l] False show ?thesis by simp
    next
      case neq: False
      with Cons.prems(2) have "a \<in> set s" by simp
      with Cons.IH [OF s] False show ?thesis by simp
    qed
  qed
qed

lemma distinct_map_sort_key:
  "distinct (map f xs) \<Longrightarrow> distinct (map f (sort_key g xs))"
  by (simp add: distinct_map)

lemma singleton_list:
  assumes "distinct (map fst G)" "set G = {g}"
  shows "G = [g]"
proof (cases G)
  case Nil
  with assms show ?thesis by simp
next
  case (Cons a G')
  from assms(2) Cons have a: "a = g" by auto
  have "G' = []"
  proof (rule ccontr)
    assume "G' \<noteq> []"
    then obtain b where b: "b \<in> set G'" by (cases G') auto
    with assms(2) Cons have "b = g" by auto
    with a b assms(1) Cons show False by auto
  qed
  with a Cons show ?thesis by simp
qed

text \<open>
  Claim C3 says that the monthly record of a single month has the open of the
  chronologically first and the close of the chronologically last record.  The members of a
  bucket are sorted by their date strings, and \<open>parse_date\<close> also accepts a day written with
  one digit: the string \<open>2024-01-10\<close> sorts before \<open>2024-01-5\<close>, so the record of the month
  has the open of 10 January and the close of 5 January.
\<close>

theorem first_and_last_by_date_string_counterexample:
  "parse_date ''2024-01-5''
     = Inr \<lparr>year = 2024, month = 1, day = 5, hour = 0, minute = 0, second = 0\<rparr>
   \<and> parse_date ''2024-01-10''
     = Inr \<lparr>year = 2024, month = 1, day = 10, hour = 0, minute = 0, second = 0\<rparr>
   \<and> dt_less \<lparr>year = 2024, month = 1, day = 5, hour = 0, minute = 0, second = 0\<rparr>
             \<lparr>year = 2024, month = 1, day = 10, hour = 0, minute = 0, second = 0\<rparr>
   \<and> group_by_period
        [\<lparr>date = ''2024-01-5'', open_price = 10, high_price = 12, low_price = 9, close_price = 11\<rparr>,
         \<lparr>date = ''2024-01-10'', open_price = 20, high_price = 22, low_price = 19, close_price = 21\<rparr>]
        ''monthly''
      = Inr [\<lparr>date = ''2024-01'', open_price = 20, high_price = 22, low_price = 9, close_price = 11\<rparr>]"
  by code_simp

text \<open>
  Claim C3 as amended.  For a resolution that buckets (any but \<open>intraday\<close> and \<open>daily\<close>) and records
  whose dates parse, the aggregation returns one record per non-empty bucket, and with the
  members of the bucket sorted ascending by their original date string, the record has the
  open of the first member, the close of the last, the maximum of the highs and the minimum
  of the lows.  In particular the monthly aggregation of records of a single month returns
  exactly one record, labelled with that month, with the open of the first and the close of
  the last record in the order of the date strings; for zero-padded date strings, the format
  of the provider, these are a chronologically first and a chronologically last record.
\<close>

theorem ohlc_combination_rule:
  assumes period: "period \<noteq> ''intraday''" "period \<noteq> ''daily''"
    and rows: "\<And>r. r \<in> set rows \<Longrightarrow> parses (date r)"
  shows "\<exists>out. group_by_period rows period = Inr out
     \<and> distinct (map date out)
     \<and> set (map date out) = {l. bucket period rows l \<noteq> []}
     \<and> (\<forall>r\<in>set out.
          let members = sort_key date (bucket period rows (date r)) in
            members \<noteq> []
          \<and> open_price r = open_price (hd members)
          \<and> close_price r = close_price (last members)
          \<and> high_price r = Max (high_price ` set members)
          \<and> low_price r = Min (low_price ` set members))
     \<and> (period = ''monthly'' \<and> rows \<noteq> []
          \<and> (\<forall>r\<in>set rows. year (date_obj_of r) = y \<and> month (date_obj_of r) = m) \<longrightarrow>
         (\<exists>r. out = [r] \<and> date r = str_int y @ ''-'' @ fmt_02d m
            \<and> open_price r = open_price (hd (sort_key date rows))
            \<and> close_price r = close_price (last (sort_key date rows))
            \<and> ((\<forall>a\<in>set rows. zero_padded (date a)) \<longrightarrow>
                (\<forall>a\<in>set rows.
                   dt_le (date_obj_of (hd (sort_key date rows))) (date_obj_of a)
                 \<and> dt_le (date_obj_of a) (date_obj_of (last (sort_key date rows)))))))"
proof -
  let ?roll = "\<lambda>(l, rs). ohlc_rollup l rs"
  from group_by_period_grouped [OF period rows]
  obtain G where dG: "distinct (map fst G)"
    and sG: "set G = {(k, bucket period rows k) | k. bucket period rows k \<noteq> []}"
    and out: "group_by_period rows period = Inr (sort_key date (map ?roll G))"
    by blast
  let ?out = "sort_key date (map ?roll G)"
  have dates: "map date (map ?roll G) = map fst G"
    by (induction G) (auto split: prod.splits)
  have "distinct (map date (map ?roll G))"
    using dG by (simp only: dates)
  then have 1: "distinct (map date ?out)"
    by (rule distinct_map_sort_key)
  have "set (map date ?out) = date ` set (map ?roll G)" by (simp only: set_map set_sort)
  also have "\<dots> = set (map date (map ?roll G))" by (simp only: set_map)
  also have "\<dots> = set (map fst G)" by (simp only: dates)
  also have "\<dots> = fst ` set G" by (simp only: set_map)
  also have "\<dots> = {l. bucket period rows l \<noteq> []}" using sG by force
  finally have 2: "set (map date ?out) = {l. bucket period rows l \<noteq> []}" .
  have 3: "let members = sort_key date (bucket period rows (date r)) in
            members \<noteq> []
          \<and> open_price r = open_price (hd members)
          \<and> close_price r = close_price (last members)
          \<and> high_price r = Max (high_price ` set members)
          \<and> low_price r = Min (low_price ` set members)" if "r \<in> set ?out" for r
  proof -
    from that have "r \<in> ?roll ` set G" by simp
    then obtain k where k: "bucket period rows k \<noteq> []"
      and r: "r = ohlc_rollup k (bucket period rows k)"
      using sG by auto
    have "date r = k" using r by simp
    then show ?thesis using ohlc_rollup_fields [OF k, of k] r by simp
  qed
  have 4: "\<exists>r. ?out = [r] \<and> date r = str_int y @ ''-'' @ fmt_02d m
            \<and> open_price r = open_price (hd (sort_key date rows))
            \<and> close_price r = close_price (last (sort_key date rows))
            \<and> ((\<forall>a\<in>set rows. zero_padded (date a)) \<longrightarrow>
                (\<forall>a\<in>set rows.
                   dt_le (date_obj_of (hd (sort_key date rows))) (date_obj_of a)
                 \<and> dt_le (date_obj_of a) (date_obj_of (last (sort_key date rows)))))"
    if mo: "period = ''monthly''" and ne: "rows \<noteq> []"
      and ym: "\<And>r. r \<in> set rows \<Longrightarrow> year (date_obj_of r) = y \<and> month (date_obj_of r) = m"
  proof -
    let ?l = "str_int y @ ''-'' @ fmt_02d m"
    let ?s = "sort_key date rows"
    have lab: "group_label period r = Inr ?l" if "r \<in> set rows" for r
    proof -
      from rows [OF that] obtain t where t: "parse_date (date r) = Inr t"
        by (auto simp: parses_iff)
      then have "date_obj_of r = t" by (simp add: date_obj_of_def)
      with ym [OF that] group_label_monthly [OF t] mo show ?thesis by simp
    qed
    then have b: "bucket period rows ?l = rows"
      by (simp add: bucket_def)
    have other: "k = ?l" if "bucket period rows k \<noteq> []" for k
      using lab that by (auto simp: bucket_def filter_empty_conv)
    have "{(k, bucket period rows k) | k. bucket period rows k \<noteq> []} = {(?l, rows)}"
    proof (rule set_eqI)
      fix g :: "string \<times> row list"
      show "g \<in> {(k, bucket period rows k) | k. bucket period rows k \<noteq> []}
            \<longleftrightarrow> g \<in> {(?l, rows)}"
      proof
        assume "g \<in> {(k, bucket period rows k) | k. bucket period rows k \<noteq> []}"
        then obtain k where k: "g = (k, bucket period rows k)" "bucket period rows k \<noteq> []"
          by blast
        from other [OF k(2)] k(1) b show "g \<in> {(?l, rows)}" by simp
      next
        assume "g \<in> {(?l, rows)}"
        then have "g = (?l, bucket period rows ?l)" "bucket period rows ?l \<noteq> []"
          using b ne by simp_all
        then show "g \<in> {(k, bucket period rows k) | k. bucket period rows k \<noteq> []}"
          by blast
      qed
    qed
    then have "set G = {(?l, rows)}"
      using sG by simp
    with dG have "G = [(?l, rows)]" by (rule singleton_list)
    then have o: "?out = [ohlc_rollup ?l rows]" by simp
    have sne: "?s \<noteq> []" using ne by (rule sort_key_nonempty)
    have hl: "hd ?s \<in> set rows" "last ?s \<in> set rows"
      using hd_in_set [OF sne] last_in_set [OF sne] by simp_all
    have srt: "sorted (map date ?s)" by (rule sorted_sort_key)
    have chron: "dt_le (date_obj_of (hd ?s)) (date_obj_of a)
               \<and> dt_le (date_obj_of a) (date_obj_of (last ?s))"
      if zp: "\<forall>a\<in>set rows. zero_padded (date a)"
        and a: "a \<in> set rows" for a
    proof -
      have agree: "dt_le (date_obj_of a) (date_obj_of b)"
        if "a \<in> set rows" "b \<in> set rows" "date a \<le> date b" for a b
        using zero_padded_order [of "date a" "date b"] zp that
        by (simp add: date_obj_of_def)
      from a have a': "a \<in> set ?s" by simp
      have "date (hd ?s) \<le> date a" by (rule sorted_hd_min [OF srt a'])
      moreover have "date a \<le> date (last ?s)" by (rule sorted_last_max [OF srt a'])
      ultimately show ?thesis using agree a hl by blast
    qed
    have "open_price (ohlc_rollup ?l rows) = open_price (hd ?s)"
      "close_price (ohlc_rollup ?l rows) = close_price (last ?s)"
      by (simp_all add: ohlc_rollup_def Let_def)
    with o chron show ?thesis by auto
  qed
  show ?thesis
    using out 1 2 3 4 by blast
qed

theorem ohlc_combination_rule_witness:
  "\<exists>r. group_by_period
       [\<lparr>date = ''2024-01-15'', open_price = 12, high_price = 18, low_price = 11, close_price = 14\<rparr>,
        \<lparr>date = ''2024-01-02'', open_price = 10, high_price = 13, low_price = 9, close_price = 12\<rparr>,
        \<lparr>date = ''2024-01-31'', open_price = 14, high_price = 16, low_price = 8, close_price = 15\<rparr>]
       ''monthly'' = Inr [r]
     \<and> date r = ''2024-01'' \<and> open_price r = 10 \<and> close_price r = 15
     \<and> high_price r = 18 \<and> low_price r = 8
     \<and> (\<forall>a\<in>set
          [\<lparr>date = ''2024-01-15'', open_price = 12, high_price = 18, low_price = 11, close_price = 14\<rparr>,
           \<lparr>date = ''2024-01-02'', open_price = 10, high_price = 13, low_price = 9, close_price = 12\<rparr>,
           \<lparr>date = ''2024-01-31'', open_price = 14, high_price = 16, low_price = 8, close_price = 15\<rparr>].
          dt_le (date_obj_of
                  \<lparr>date = ''2024-01-02'', open_price = 10, high_price = 13, low_price = 9, close_price = 12\<rparr>)
                (date_obj_of a)
          \<and> dt_le (date_obj_of a)
                (date_obj_of
                  \<lparr>date = ''2024-01-31'', open_price = 14, high_price = 16, low_price = 8, close_price = 15\<rparr>))"
proof -
  let ?a = "\<lparr>date = ''2024-01-15'', open_price = 12, high_price = 18, low_price = 11,
              close_price = 14\<rparr>"
  let ?b = "\<lparr>date = ''2024-01-02'', open_price = 10, high_price = 13, low_price = 9,
              close_price = 12\<rparr>"
  let ?c = "\<lparr>date = ''2024-01-31'', open_price = 14, high_price = 16, low_price = 8,
              close_price = 15\<rparr>"
  let ?rows = "[?a, ?b, ?c]"
  have h1: "''monthly'' \<noteq> ''intraday''" "''monthly'' \<noteq> ''daily''" by simp_all
  have "\<forall>r\<in>set ?rows. parses (date r)" by code_simp
  then have h2: "\<And>r. r \<in> set ?rows \<Longrightarrow> parses (date r)" by blast
  have h3: "\<forall>r\<in>set ?rows. year (date_obj_of r) = 2024 \<and> month (date_obj_of r) = 1"
    by code_simp
  have h4: "\<forall>a\<in>set ?rows. zero_padded (date a)"
    by code_simp
  have s: "sort_key date ?rows = [?b, ?a, ?c]" by code_simp
  have l: "str_int 2024 @ ''-'' @ fmt_02d 1 = ''2024-01''" by code_simp
  have bk: "bucket ''monthly'' ?rows ''2024-01'' = ?rows" by code_simp
  from ohlc_combination_rule [where rows = ?rows and period = "''monthly''"
      and y = 2024 and m = 1, OF h1 h2]
  obtain out where out: "group_by_period ?rows ''monthly'' = Inr out"
    and each: "\<forall>r\<in>set out.
          let members = sort_key date (bucket ''monthly'' ?rows (date r)) in
            members \<noteq> []
          \<and> open_price r = open_price (hd members)
          \<and> close_price r = close_price (last members)
          \<and> high_price r = Max (high_price ` set members)
          \<and> low_price r = Min (low_price ` set members)"
    and one: "''monthly'' = ''monthly'' \<and> ?rows \<noteq> []
          \<and> (\<forall>r\<in>set ?rows. year (date_obj_of r) = 2024 \<and> month (date_obj_of r) = 1) \<longrightarrow>
         (\<exists>r. out = [r] \<and> date r = str_int 2024 @ ''-'' @ fmt_02d 1
            \<and> open_price r = open_price (hd (sort_key date ?rows))
            \<and> close_price r = close_price (last (sort_key date ?rows))
            \<and> ((\<forall>a\<in>set ?rows. zero_padded (date a)) \<longrightarrow>
                (\<forall>a\<in>set ?rows.
                   dt_le (date_obj_of (hd (sort_key date ?rows))) (date_obj_of a)
                 \<and> dt_le (date_obj_of a) (date_obj_of (last (sort_key date ?rows))))))"
    by blast
  from one h3 h4 obtain r where r: "out = [r]" "date r = ''2024-01''"
    "open_price r = open_price (hd (sort_key date ?rows))"
    "close_price r = close_price (last (sort_key date ?rows))"
    and chron: "\<forall>a\<in>set ?rows.
                   dt_le (date_obj_of (hd (sort_key date ?rows))) (date_obj_of a)
                 \<and> dt_le (date_obj_of a) (date_obj_of (last (sort_key date ?rows)))"
    unfolding l by blast
  from r(1) have "r \<in> set out" by simp
  with each have "let members = sort_key date (bucket ''monthly'' ?rows (date r)) in
            members \<noteq> []
          \<and> open_price r = open_price (hd members)
          \<and> close_price r = close_price (last members)
          \<and> high_price r = Max (high_price ` set members)
          \<and> low_price r = Min (low_price ` set members)"
    by blast
  then have "high_price r = 18" "low_price r = 8"
    unfolding r(2) bk s Let_def by simp_all
  with r out chron show ?thesis
    unfolding s by simp
qed

end
